theory Spec2Isabelle
  imports Complex_Main
begin

section \<open>The task manager of \<^verbatim>\<open>src/common/task.c\<close>\<close>

text \<open>
  The translation unit keeps five file-local variables (two id counters, two queue
  pointers, the running flag) and works on heap objects of type \<^verbatim>\<open>task_t\<close> and
  \<^verbatim>\<open>task_scheduler_t\<close>. The model threads one record through every function: the five
  variables, the two heaps, the clock position, and a history of callable invocations.
  A C behaviour that the language leaves undefined is a value of type \<open>fault\<close>; every
  function returns \<open>fault + result\<close>.

  The delay is a C double (parameter of \<^verbatim>\<open>add_task\<close>, line 160); the timestamp field and
  the result of \<^verbatim>\<open>get_current_time\<close> are declared in headers outside this translation
  unit and are taken to be doubles as well. Their values are kept as \<open>real\<close> numbers,
  and the one arithmetic operation the code performs on them, the subtraction in the
  due check, rounds its result to the nearest double (\<open>to_double\<close>); the exponent range
  of doubles (overflow, subnormal numbers) is not modelled.
\<close>

subsection \<open>Data\<close>

type_synonym addr = nat

datatype fault =
    UseAfterFree      \<comment> \<open>a freed \<^verbatim>\<open>task_t\<close> or \<^verbatim>\<open>task_scheduler_t\<close> is read or written\<close>
  | NullDeref         \<comment> \<open>\<^verbatim>\<open>malloc\<close> returned NULL and the result is written through\<close>
  | NoQueue           \<comment> \<open>a queue pointer that is NULL or already freed is used\<close>
  | MutexMisuse       \<comment> \<open>relock, unlock of an unlocked mutex, destroy of a locked one\<close>
  | SignedOverflow    \<comment> \<open>\<^verbatim>\<open>++\<close> on an \<^verbatim>\<open>int\<close> holding \<^verbatim>\<open>INT_MAX\<close>\<close>

text \<open>
  Modelled from the spec: \<^verbatim>\<open>task.h\<close>, which declares \<^verbatim>\<open>task_result_t\<close>, is not among the
  sources. Section 4.3 of the specification names three result tags (CONTINUE, WAIT,
  DONE) and speaks of ``any unrecognized tag''; the constructors carry the names
  \<^verbatim>\<open>taskmgr_tick\<close> uses for them, and any other value of the enum type is
  \<open>TASK_RESULT_OTHER\<close>.
\<close>

datatype task_result_t =
    TASK_RESULT_DONE
  | TASK_RESULT_CONT
  | TASK_RESULT_WAIT
  | TASK_RESULT_OTHER int

type_synonym va_list = "int list"

text \<open>
  Modelled from the spec: \<^verbatim>\<open>task.h\<close>, which declares \<^verbatim>\<open>task_t\<close> and \<^verbatim>\<open>task_scheduler_t\<close>, is
  not among the sources. Section 3 of the specification lists the fields of a Task (id,
  callable with its argument set, delay, delayable, timestamp, guard) and of a
  Scheduler (id, thread handle and attributes); they are the fields \<^verbatim>\<open>task.c\<close> reads and
  writes, under the names it uses. \<open>task_id\<close> is the field \<^verbatim>\<open>id\<close>. \<open>func\<close> is a function
  pointer (a code address, resolved by the environment), \<open>args\<close> is the \<^verbatim>\<open>va_list *\<close>: the
  address of a \<^verbatim>\<open>va_list\<close> object, here the number of the call frame that holds it.
  \<open>delayable\<close> is a C \<^verbatim>\<open>int\<close> used as a truth value. \<open>mutex\<close> is \<open>True\<close> while the mutex is
  locked. Of a scheduler only the id is read back by the code; its started thread is
  recorded in the state.
\<close>

record task_t =
  task_id :: int
  func :: nat
  args :: nat
  delayable :: int
  delay :: real
  timestamp :: real
  mutex :: bool

record task_scheduler_t =
  scheduler_id :: int

text \<open>
  A queue pointer is \<open>None\<close> while it is NULL and again after \<^verbatim>\<open>queue_free\<close>; otherwise it
  holds the sequence of stored handles. \<open>tasks\<close> is the memory of every \<^verbatim>\<open>task_t\<close> ever
  allocated, \<open>tasks_freed\<close> the addresses handed back to \<^verbatim>\<open>free\<close> (their bytes stay in
  \<open>tasks\<close>, but no defined program reads them). \<open>va_store\<close> holds the \<^verbatim>\<open>va_list\<close> objects of
  the call frames that are still active, \<open>frames\<close> counts the frames entered so far.
  \<open>threads\<close> lists the schedulers whose thread \<^verbatim>\<open>pthread_create\<close> has started.
  \<open>reads\<close> counts the calls of \<^verbatim>\<open>get_current_time\<close>; \<open>invocations\<close> is a history
  variable: one entry per call of a task's callable by \<^verbatim>\<open>taskmgr_tick\<close>, holding the task
  handle and the value of \<open>reads\<close> at the call.
\<close>

record taskmgr =
  taskmgr_next_task_id :: int
  taskmgr_next_scheduler_id :: int
  taskmgr_task_queue :: "addr list option"
  taskmgr_scheduler_queue :: "addr list option"
  taskmgr_running :: int
  tasks :: "addr \<rightharpoonup> task_t"
  tasks_freed :: "addr set"
  schedulers :: "addr \<rightharpoonup> task_scheduler_t"
  schedulers_freed :: "addr set"
  threads :: "addr list"
  va_store :: "nat \<rightharpoonup> va_list"
  frames :: nat
  reads :: nat
  invocations :: "(addr \<times> nat) list"

text \<open>
  A callable receives the task handle and the copied argument list (\<open>None\<close> when the
  \<^verbatim>\<open>va_list\<close> it was copied from no longer exists, so that its content is indeterminate) and
  may use the whole public interface, so it maps the state to a result tag and a new state.
  The environment resolves function pointers and fixes what the clock returns at its
  first, second, ... reading.
\<close>

type_synonym callable_func_t =
  "addr \<Rightarrow> va_list option \<Rightarrow> taskmgr \<Rightarrow> task_result_t \<times> taskmgr"

record env =
  funcs :: "nat \<Rightarrow> callable_func_t"
  clock :: "nat \<Rightarrow> real"

text \<open>The largest value of a C \<^verbatim>\<open>int\<close> of 32 bits.\<close>

definition INT_MAX :: int where
  "INT_MAX = 2147483647"

text \<open>The initial values of the file-local variables (lines 36 to 42), nothing allocated.\<close>

definition taskmgr_start :: taskmgr where
  "taskmgr_start =
     \<lparr> taskmgr_next_task_id = -1, taskmgr_next_scheduler_id = -1,
       taskmgr_task_queue = None, taskmgr_scheduler_queue = None,
       taskmgr_running = 0,
       tasks = Map.empty, tasks_freed = {},
       schedulers = Map.empty, schedulers_freed = {},
       threads = [], va_store = Map.empty, frames = 0, reads = 0, invocations = [] \<rparr>"

subsection \<open>The queue\<close>

text \<open>
  Modelled from the spec: \<^verbatim>\<open>queue.h\<close> and \<^verbatim>\<open>queue.c\<close> are not among the sources. Section 4.1
  of the specification gives the contract: an ordered sequence with push to the back,
  pop from the front (or empty), indexed read, position of an element by identity (or
  not found), removal by identity (success or not found), an emptiness test, and a
  destructor that releases the container only. The conventions for the results are the
  ones \<^verbatim>\<open>task.c\<close> relies on: \<^verbatim>\<open>queue_get_index\<close> gives \<open>-1\<close> for not found,
  \<^verbatim>\<open>queue_remove_object\<close> a non-zero result for not found, and \<^verbatim>\<open>max_index\<close> is the index
  of the last element (\<open>-1\<close> for the empty queue).
\<close>

definition queue_init :: "addr list" where
  "queue_init = []"

definition queue_get_empty :: "addr list \<Rightarrow> bool" where
  "queue_get_empty q = (q = [])"

definition queue_pop_left :: "addr list \<Rightarrow> (addr \<times> addr list) option" where
  "queue_pop_left q = (case q of [] \<Rightarrow> None | x # xs \<Rightarrow> Some (x, xs))"

definition queue_push_right :: "addr list \<Rightarrow> addr \<Rightarrow> addr list" where
  "queue_push_right q x = q @ [x]"

fun queue_index_from :: "int \<Rightarrow> addr list \<Rightarrow> addr \<Rightarrow> int" where
  "queue_index_from i [] x = -1"
| "queue_index_from i (y # ys) x = (if y = x then i else queue_index_from (i + 1) ys x)"

definition queue_get_index :: "addr list \<Rightarrow> addr \<Rightarrow> int" where
  "queue_get_index q x = queue_index_from 0 q x"

definition queue_remove_object :: "addr list \<Rightarrow> addr \<Rightarrow> int \<times> addr list" where
  "queue_remove_object q x =
     (if queue_get_index q x = -1 then (1, q) else (0, remove1 x q))"

definition max_index :: "addr list \<Rightarrow> int" where
  "max_index q = int (length q) - 1"

definition queue_get :: "addr list \<Rightarrow> int \<Rightarrow> addr" where
  "queue_get q i = q ! nat i"

subsection \<open>Double arithmetic\<close>

text \<open>
  \<open>round_even m\<close> is the integer nearest to \<open>m\<close>, the even one of the two when \<open>m\<close> lies
  halfway. \<open>to_double x\<close> is \<open>x\<close> rounded to 53 significant bits, the rounding of IEEE
  double arithmetic in its default mode: with \<open>2 ^ e \<le> |x| < 2 ^ (e + 1)\<close> the doubles
  around \<open>x\<close> are the multiples of \<open>2 ^ (e - 52)\<close>.
\<close>

definition round_even :: "real \<Rightarrow> int" where
  "round_even m =
     (if m - of_int \<lfloor>m\<rfloor> < 1 / 2 then \<lfloor>m\<rfloor>
      else if 1 / 2 < m - of_int \<lfloor>m\<rfloor> then \<lfloor>m\<rfloor> + 1
      else if even \<lfloor>m\<rfloor> then \<lfloor>m\<rfloor> else \<lfloor>m\<rfloor> + 1)"

definition to_double :: "real \<Rightarrow> real" where
  "to_double x =
     (if x = 0 then 0
      else sgn x * of_int (round_even (\<bar>x\<bar> / 2 powi (\<lfloor>log 2 \<bar>x\<bar>\<rfloor> - 52)))
             * 2 powi (\<lfloor>log 2 \<bar>x\<bar>\<rfloor> - 52))"

subsection \<open>Memory and clock\<close>

text \<open>Reading \<^verbatim>\<open>task->field\<close>: defined only for an allocated, not yet freed object.\<close>

definition live_task :: "taskmgr \<Rightarrow> addr \<Rightarrow> task_t option" where
  "live_task st a = (if a \<in> tasks_freed st then None else tasks st a)"

definition live_scheduler :: "taskmgr \<Rightarrow> addr \<Rightarrow> task_scheduler_t option" where
  "live_scheduler st a = (if a \<in> schedulers_freed st then None else schedulers st a)"

definition store_task :: "taskmgr \<Rightarrow> addr \<Rightarrow> task_t \<Rightarrow> taskmgr" where
  "store_task st a t = st\<lparr>tasks := (tasks st)(a \<mapsto> t)\<rparr>"

text \<open>
  Modelled from the spec: \<^verbatim>\<open>get_current_time\<close> is declared in \<^verbatim>\<open>util.h\<close>, which is not among
  the sources; the specification calls its value ``now''. Each call takes the next
  reading of the environment's clock.
\<close>

definition get_current_time :: "env \<Rightarrow> taskmgr \<Rightarrow> real \<times> taskmgr" where
  "get_current_time E st = (clock E (reads st), st\<lparr>reads := Suc (reads st)\<rparr>)"

text \<open>\<^verbatim>\<open>queue_push_right(taskmgr_task_queue, task)\<close> on the state.\<close>

definition push_task :: "taskmgr \<Rightarrow> addr \<Rightarrow> fault + taskmgr" where
  "push_task st a =
     (case taskmgr_task_queue st of
        None \<Rightarrow> Inl NoQueue
      | Some q \<Rightarrow> Inr (st\<lparr>taskmgr_task_queue := Some (queue_push_right q a)\<rparr>))"

subsection \<open>Life cycle: \<^verbatim>\<open>taskmgr_init\<close>, \<^verbatim>\<open>taskmgr_shutdown\<close>\<close>

definition taskmgr_init :: "taskmgr \<Rightarrow> int \<times> taskmgr" where
  "taskmgr_init st =
     (if taskmgr_running st \<noteq> 0 then (1, st)
      else (0, st\<lparr>taskmgr_task_queue := Some queue_init,
                  taskmgr_scheduler_queue := Some queue_init\<rparr>))"

text \<open>
  \<^verbatim>\<open>queue_free\<close> on a pointer that is NULL or already freed has no defined result.
\<close>

definition taskmgr_shutdown :: "taskmgr \<Rightarrow> fault + (int \<times> taskmgr)" where
  "taskmgr_shutdown st =
     (if taskmgr_running st = 0 then Inr (1, st)
      else
        (case (taskmgr_task_queue st, taskmgr_scheduler_queue st) of
           (Some _, Some _) \<Rightarrow>
             Inr (0, st\<lparr>taskmgr_running := 0,
                        taskmgr_task_queue := None,
                        taskmgr_scheduler_queue := None\<rparr>)
         | _ \<Rightarrow> Inl NoQueue))"

subsection \<open>Tasks: \<^verbatim>\<open>free_task\<close>, \<^verbatim>\<open>add_task\<close>, lookup and removal\<close>

text \<open>
  \<^verbatim>\<open>free_task\<close> (lines 215 to 227) writes the sentinel and zeroes the timing fields, destroys
  the mutex and frees the object. It does not touch the queue. \<^verbatim>\<open>va_end\<close> has no effect
  on the modelled state.
\<close>

definition free_task :: "taskmgr \<Rightarrow> addr \<Rightarrow> fault + (int \<times> taskmgr)" where
  "free_task st task =
     (case live_task st task of
        None \<Rightarrow> Inl UseAfterFree
      | Some t \<Rightarrow>
          if mutex t then Inl MutexMisuse
          else Inr (0, (store_task st task
                          (t\<lparr>task_id := -1, delayable := 0, delay := 0, timestamp := 0\<rparr>))
                       \<lparr>tasks_freed := insert task (tasks_freed st)\<rparr>))"

text \<open>
  \<^verbatim>\<open>add_task\<close> (lines 160 to 178). \<open>p\<close> is what \<^verbatim>\<open>malloc\<close> returns (\<open>None\<close> for NULL), \<open>va\<close>
  the variadic arguments of the call. \<^verbatim>\<open>va_start\<close> makes the \<^verbatim>\<open>va_list\<close> object \<^verbatim>\<open>args\<close> in
  the frame of this call; the task stores \<^verbatim>\<open>&args\<close>, the address of that local object; the
  object ends with the frame when the function returns.
\<close>

definition add_task ::
  "env \<Rightarrow> addr option \<Rightarrow> nat \<Rightarrow> real \<Rightarrow> va_list \<Rightarrow> taskmgr \<Rightarrow> fault + (addr \<times> taskmgr)" where
  "add_task E p f d va st =
     (let fr = frames st;
          st1 = st\<lparr>frames := Suc fr, va_store := (va_store st)(fr \<mapsto> va)\<rparr>
      in if taskmgr_next_task_id st1 = INT_MAX then Inl SignedOverflow
         else
           (let st2 = st1\<lparr>taskmgr_next_task_id := taskmgr_next_task_id st1 + 1\<rparr>
            in case p of
                 None \<Rightarrow> Inl NullDeref
               | Some task \<Rightarrow>
                   (let (now, st3) = get_current_time E st2;
                        t = \<lparr>task_id = taskmgr_next_task_id st2, func = f, args = fr,
                             delayable = 1, delay = d, timestamp = now, mutex = False\<rparr>;
                        st4 = (store_task st3 task t)
                                \<lparr>tasks_freed := tasks_freed st3 - {task}\<rparr>
                    in case push_task st4 task of
                         Inl e \<Rightarrow> Inl e
                       | Inr st5 \<Rightarrow>
                           Inr (task, st5\<lparr>va_store := (va_store st5)(fr := None)\<rparr>))))"

text \<open>
  The loop of \<^verbatim>\<open>get_task_by_id\<close> (lines 182 to 189), from index \<open>i\<close>. It reads
  \<^verbatim>\<open>task->id\<close> of every handle it passes.
\<close>

function get_task_loop :: "taskmgr \<Rightarrow> addr list \<Rightarrow> int \<Rightarrow> int \<Rightarrow> fault + addr option" where
  "get_task_loop st q ident i =
     (if 0 \<le> i \<and> i \<le> max_index q then
        (case live_task st (queue_get q i) of
           None \<Rightarrow> Inl UseAfterFree
         | Some t \<Rightarrow>
             if task_id t = ident then Inr (Some (queue_get q i))
             else get_task_loop st q ident (i + 1))
      else Inr None)"
  by pat_completeness auto
termination
  by (relation "measure (\<lambda>(st, q, ident, i). nat (max_index q + 1 - i))") auto

definition get_task_by_id :: "taskmgr \<Rightarrow> int \<Rightarrow> fault + addr option" where
  "get_task_by_id st ident =
     (case taskmgr_task_queue st of
        None \<Rightarrow> Inl NoQueue
      | Some q \<Rightarrow> get_task_loop st q ident 0)"

definition has_task :: "taskmgr \<Rightarrow> addr \<Rightarrow> fault + int" where
  "has_task st task =
     (case taskmgr_task_queue st of
        None \<Rightarrow> Inl NoQueue
      | Some q \<Rightarrow> Inr (if queue_get_index q task \<noteq> -1 then 1 else 0))"

definition has_task_by_id :: "taskmgr \<Rightarrow> int \<Rightarrow> fault + int" where
  "has_task_by_id st ident =
     (case get_task_by_id st ident of
        Inl e \<Rightarrow> Inl e
      | Inr r \<Rightarrow> Inr (if r \<noteq> None then 1 else 0))"

definition remove_task :: "taskmgr \<Rightarrow> addr \<Rightarrow> fault + (int \<times> taskmgr)" where
  "remove_task st task =
     (case taskmgr_task_queue st of
        None \<Rightarrow> Inl NoQueue
      | Some q \<Rightarrow>
          (let (rc, q') = queue_remove_object q task
           in if rc \<noteq> 0 then Inr (1, st)
              else
                (case free_task (st\<lparr>taskmgr_task_queue := Some q'\<rparr>) task of
                   Inl e \<Rightarrow> Inl e
                 | Inr (_, st') \<Rightarrow> Inr (0, st'))))"

definition remove_task_by_id :: "taskmgr \<Rightarrow> int \<Rightarrow> fault + (int \<times> taskmgr)" where
  "remove_task_by_id st ident =
     (case get_task_by_id st ident of
        Inl e \<Rightarrow> Inl e
      | Inr None \<Rightarrow> Inr (1, st)
      | Inr (Some task) \<Rightarrow> remove_task st task)"

definition free_task_by_id :: "taskmgr \<Rightarrow> int \<Rightarrow> fault + (int \<times> taskmgr)" where
  "free_task_by_id st ident =
     (case get_task_by_id st ident of
        Inl e \<Rightarrow> Inl e
      | Inr None \<Rightarrow> Inr (1, st)
      | Inr (Some task) \<Rightarrow> free_task st task)"

subsection \<open>The dispatcher: \<^verbatim>\<open>taskmgr_tick\<close>\<close>

text \<open>
  Lines 87 to 102: what happens to the task after its callable has returned \<open>result\<close>.
\<close>

definition process_result :: "env \<Rightarrow> task_result_t \<Rightarrow> addr \<Rightarrow> taskmgr \<Rightarrow> fault + taskmgr" where
  "process_result E result task st =
     (case result of
        TASK_RESULT_CONT \<Rightarrow>
          (case live_task st task of
             None \<Rightarrow> Inl UseAfterFree
           | Some t \<Rightarrow> push_task (store_task st task (t\<lparr>delayable := 0\<rparr>)) task)
      | TASK_RESULT_WAIT \<Rightarrow>
          (case live_task st task of
             None \<Rightarrow> Inl UseAfterFree
           | Some t \<Rightarrow>
               (let (now, st1) = get_current_time E st
                in push_task (store_task st1 task (t\<lparr>delayable := 1, timestamp := now\<rparr>)) task))
      | _ \<Rightarrow>
          (case free_task st task of
             Inl e \<Rightarrow> Inl e
           | Inr (_, st') \<Rightarrow> Inr st'))"

text \<open>
  Lines 78 to 102: lock the task's mutex, copy the argument list the task points to, call
  the callable, unlock, process the result. The copy reads \<^verbatim>\<open>*task->args\<close>; when that
  object no longer exists the callable receives \<open>None\<close>.
\<close>

definition run_task :: "env \<Rightarrow> addr \<Rightarrow> taskmgr \<Rightarrow> fault + taskmgr" where
  "run_task E task st =
     (case live_task st task of
        None \<Rightarrow> Inl UseAfterFree
      | Some t \<Rightarrow>
          if mutex t then Inl MutexMisuse
          else
            (let st1 = store_task st task (t\<lparr>mutex := True\<rparr>);
                 copied = va_store st1 (args t);
                 st2 = st1\<lparr>invocations := invocations st1 @ [(task, reads st1)]\<rparr>;
                 (result, st3) = funcs E (func t) task copied st2
             in case live_task st3 task of
                  None \<Rightarrow> Inl UseAfterFree
                | Some t' \<Rightarrow>
                    if \<not> mutex t' then Inl MutexMisuse
                    else process_result E result task
                           (store_task st3 task (t'\<lparr>mutex := False\<rparr>))))"

text \<open>
  \<^verbatim>\<open>taskmgr_tick\<close> (lines 57 to 106). The due check of line 69 subtracts two doubles:
  the difference is rounded to a double before it is compared with the delay.
\<close>

definition taskmgr_tick :: "env \<Rightarrow> taskmgr \<Rightarrow> fault + (int \<times> taskmgr)" where
  "taskmgr_tick E st =
     (case taskmgr_task_queue st of
        None \<Rightarrow> Inl NoQueue
      | Some q \<Rightarrow>
          if \<not> queue_get_empty q then
            (case queue_pop_left q of
               None \<Rightarrow> Inr (1, st)
             | Some (task, q') \<Rightarrow>
                 (let st1 = st\<lparr>taskmgr_task_queue := Some q'\<rparr>
                  in case live_task st1 task of
                       None \<Rightarrow> Inl UseAfterFree
                     | Some t \<Rightarrow>
                         if delayable t \<noteq> 0 then
                           (let (now, st2) = get_current_time E st1
                            in if to_double (now - timestamp t) < delay t then
                                 (case push_task st2 task of
                                    Inl e \<Rightarrow> Inl e
                                  | Inr st3 \<Rightarrow> Inr (0, st3))
                               else
                                 (case run_task E task st2 of
                                    Inl e \<Rightarrow> Inl e
                                  | Inr st3 \<Rightarrow> Inr (0, st3)))
                         else
                           (case run_task E task st1 of
                              Inl e \<Rightarrow> Inl e
                            | Inr st3 \<Rightarrow> Inr (0, st3))))
          else Inr (0, st))"

text \<open>
  The caller in \<^verbatim>\<open>net.c\<close> (line 226) calls \<^verbatim>\<open>taskmgr_tick\<close> once per iteration of its loop
  and ignores the result: \<open>n\<close> such calls in a row.
\<close>

fun drive_ticks :: "env \<Rightarrow> nat \<Rightarrow> taskmgr \<Rightarrow> fault + taskmgr" where
  "drive_ticks E 0 st = Inr st"
| "drive_ticks E (Suc n) st =
     (case taskmgr_tick E st of
        Inl e \<Rightarrow> Inl e
      | Inr (_, st') \<Rightarrow> drive_ticks E n st')"

subsection \<open>The run loop: \<^verbatim>\<open>taskmgr_run\<close>, \<^verbatim>\<open>taskmgr_scheduler_run\<close>\<close>

text \<open>
  The \<^verbatim>\<open>while\<close> loop of \<^verbatim>\<open>taskmgr_run\<close> (lines 116 to 124) ends only when the flag is
  cleared or a tick fails, so it is given fuel: the outcome is \<open>Returned\<close> with the
  function's result, or \<open>Looping st'\<close> when the loop is still running after \<open>n\<close>
  iterations, which have led to the state \<open>st'\<close>. \<^verbatim>\<open>sched_yield\<close> changes nothing in the
  modelled state.
\<close>

datatype 'a progress = Returned 'a | Looping taskmgr

fun run_loop :: "env \<Rightarrow> nat \<Rightarrow> taskmgr \<Rightarrow> fault + (int \<times> taskmgr) progress" where
  "run_loop E n st =
     (if taskmgr_running st \<noteq> 0 then
        (case n of
           0 \<Rightarrow> Inr (Looping st)
         | Suc m \<Rightarrow>
             (case taskmgr_tick E st of
                Inl e \<Rightarrow> Inl e
              | Inr (rc, st') \<Rightarrow>
                  if rc \<noteq> 0 then Inr (Returned (1, st')) else run_loop E m st'))
      else Inr (Returned (0, st)))"

definition taskmgr_run :: "env \<Rightarrow> nat \<Rightarrow> taskmgr \<Rightarrow> fault + (int \<times> taskmgr) progress" where
  "taskmgr_run E n st =
     (if taskmgr_running st \<noteq> 0 then Inr (Returned (1, st))
      else run_loop E n (st\<lparr>taskmgr_running := 1\<rparr>))"

text \<open>The thread body (lines 129 to 133) drops the result of \<^verbatim>\<open>taskmgr_run\<close>.\<close>

definition taskmgr_scheduler_run :: "env \<Rightarrow> nat \<Rightarrow> taskmgr \<Rightarrow> fault + taskmgr progress" where
  "taskmgr_scheduler_run E n st =
     (case taskmgr_run E n st of
        Inl e \<Rightarrow> Inl e
      | Inr (Looping st') \<Rightarrow> Inr (Looping st')
      | Inr (Returned (_, st')) \<Rightarrow> Inr (Returned st'))"

subsection \<open>Schedulers\<close>

text \<open>
  \<^verbatim>\<open>add_scheduler\<close> (lines 250 to 272). \<open>p\<close> is what \<^verbatim>\<open>malloc\<close> returns, \<open>attr_rc\<close> and
  \<open>create_rc\<close> what \<^verbatim>\<open>pthread_attr_init\<close> and \<^verbatim>\<open>pthread_create\<close> return. A started thread
  is recorded in \<open>threads\<close>; its body is \<open>taskmgr_scheduler_run\<close>, run by the operating
  system on the state it finds.
\<close>

definition add_scheduler ::
  "addr option \<Rightarrow> int \<Rightarrow> int \<Rightarrow> taskmgr \<Rightarrow> fault + (addr option \<times> taskmgr)" where
  "add_scheduler p attr_rc create_rc st =
     (if taskmgr_next_scheduler_id st = INT_MAX then Inl SignedOverflow
      else
        (let st1 = st\<lparr>taskmgr_next_scheduler_id := taskmgr_next_scheduler_id st + 1\<rparr>
         in case p of
              None \<Rightarrow> Inl NullDeref
            | Some s \<Rightarrow>
                (let st2 = st1\<lparr>schedulers := (schedulers st1)
                                  (s \<mapsto> \<lparr>scheduler_id = taskmgr_next_scheduler_id st1\<rparr>),
                               schedulers_freed := schedulers_freed st1 - {s}\<rparr>
                 in if attr_rc \<noteq> 0 then Inr (None, st2)
                    else if create_rc \<noteq> 0 then Inr (None, st2)
                    else
                      (let st3 = st2\<lparr>threads := threads st2 @ [s]\<rparr>
                       in case taskmgr_scheduler_queue st3 of
                            None \<Rightarrow> Inl NoQueue
                          | Some q \<Rightarrow>
                              Inr (Some s,
                                   st3\<lparr>taskmgr_scheduler_queue :=
                                         Some (queue_push_right q s)\<rparr>)))))"

definition free_scheduler :: "taskmgr \<Rightarrow> addr \<Rightarrow> fault + (int \<times> taskmgr)" where
  "free_scheduler st s =
     (case live_scheduler st s of
        None \<Rightarrow> Inl UseAfterFree
      | Some r \<Rightarrow>
          Inr (0, st\<lparr>schedulers := (schedulers st)(s \<mapsto> r\<lparr>scheduler_id := -1\<rparr>),
                     schedulers_freed := insert s (schedulers_freed st)\<rparr>))"

function get_scheduler_loop ::
  "taskmgr \<Rightarrow> addr list \<Rightarrow> int \<Rightarrow> int \<Rightarrow> fault + addr option" where
  "get_scheduler_loop st q ident i =
     (if 0 \<le> i \<and> i \<le> max_index q then
        (case live_scheduler st (queue_get q i) of
           None \<Rightarrow> Inl UseAfterFree
         | Some r \<Rightarrow>
             if scheduler_id r = ident then Inr (Some (queue_get q i))
             else get_scheduler_loop st q ident (i + 1))
      else Inr None)"
  by pat_completeness auto
termination
  by (relation "measure (\<lambda>(st, q, ident, i). nat (max_index q + 1 - i))") auto

definition get_scheduler_by_id :: "taskmgr \<Rightarrow> int \<Rightarrow> fault + addr option" where
  "get_scheduler_by_id st ident =
     (case taskmgr_scheduler_queue st of
        None \<Rightarrow> Inl NoQueue
      | Some q \<Rightarrow> get_scheduler_loop st q ident 0)"

definition remove_scheduler :: "taskmgr \<Rightarrow> addr \<Rightarrow> fault + (int \<times> taskmgr)" where
  "remove_scheduler st s =
     (case taskmgr_scheduler_queue st of
        None \<Rightarrow> Inl NoQueue
      | Some q \<Rightarrow>
          (let (rc, q') = queue_remove_object q s
           in if rc \<noteq> 0 then Inr (1, st)
              else
                (case free_scheduler (st\<lparr>taskmgr_scheduler_queue := Some q'\<rparr>) s of
                   Inl e \<Rightarrow> Inl e
                 | Inr (rc', st') \<Rightarrow> if rc' \<noteq> 0 then Inr (1, st') else Inr (0, st'))))"

definition remove_scheduler_by_id :: "taskmgr \<Rightarrow> int \<Rightarrow> fault + (int \<times> taskmgr)" where
  "remove_scheduler_by_id st ident =
     (case get_scheduler_by_id st ident of
        Inl e \<Rightarrow> Inl e
      | Inr None \<Rightarrow> Inr (1, st)
      | Inr (Some s) \<Rightarrow> remove_scheduler st s)"

definition free_scheduler_by_id :: "taskmgr \<Rightarrow> int \<Rightarrow> fault + (int \<times> taskmgr)" where
  "free_scheduler_by_id st ident =
     (case get_scheduler_by_id st ident of
        Inl e \<Rightarrow> Inl e
      | Inr None \<Rightarrow> Inr (1, st)
      | Inr (Some s) \<Rightarrow> free_scheduler st s)"

subsection \<open>Sample environment and states\<close>

text \<open>
  A callable that returns the tag \<open>r\<close> and leaves the task manager alone, an environment
  in which every function pointer resolves to it and the clock's \<open>k\<close>-th reading is \<open>k\<close>
  seconds, and the state after \<^verbatim>\<open>taskmgr_init()\<close> and one \<^verbatim>\<open>add_task(f, d, 42)\<close> whose
  \<^verbatim>\<open>malloc\<close> returned address 7 (lemma \<open>one_task_reached\<close>).
\<close>

definition always :: "task_result_t \<Rightarrow> callable_func_t" where
  "always r task va st = (r, st)"

definition sample_env :: "task_result_t \<Rightarrow> env" where
  "sample_env r = \<lparr>funcs = (\<lambda>_. always r), clock = real\<rparr>"

definition one_task :: "real \<Rightarrow> taskmgr" where
  "one_task d =
     taskmgr_start
       \<lparr>taskmgr_next_task_id := 0,
        taskmgr_task_queue := Some [7],
        taskmgr_scheduler_queue := Some [],
        tasks := [7 \<mapsto> \<lparr>task_id = 0, func = 0, args = 0, delayable = 1, delay = d,
                        timestamp = 0, mutex = False\<rparr>],
        frames := 1, reads := 1\<rparr>"

text \<open>
  A callable that tells by its result what it was given: \<open>TASK_RESULT_CONT\<close> when it
  receives the argument list \<open>[42]\<close>, \<open>TASK_RESULT_DONE\<close> otherwise.
\<close>

definition probe :: callable_func_t where
  "probe task va st = (if va = Some [42] then TASK_RESULT_CONT else TASK_RESULT_DONE, st)"

definition probe_env :: env where
  "probe_env = \<lparr>funcs = (\<lambda>_. probe), clock = real\<rparr>"

text \<open>
  A subtraction that rounds up to the delay. \<open>tenth\<close> is the double nearest to 0.1 and
  \<open>nine_tenths\<close> the double nearest to 0.9; the exact difference \<open>1 - tenth\<close> lies below
  \<open>nine_tenths\<close> by \<open>2 ^ -55\<close> and rounds to it. \<open>tie_env\<close> has a callable that always
  waits and a clock that reads \<open>-1\<close>, then twice \<open>tenth\<close>, then \<open>1\<close>. \<open>tie_state ts r h\<close> is
  the state with one task of delay \<open>nine_tenths\<close> and timestamp \<open>ts\<close>, after \<open>r\<close> clock
  readings and the calls \<open>h\<close>.
\<close>

definition tenth :: real where
  "tenth = 3602879701896397 / 2 ^ 55"

definition nine_tenths :: real where
  "nine_tenths = 8106479329266893 / 2 ^ 53"

definition tie_env :: env where
  "tie_env =
     \<lparr>funcs = (\<lambda>_. always TASK_RESULT_WAIT),
      clock = (\<lambda>k. if k = 0 then - 1 else if k \<le> 2 then tenth else 1)\<rparr>"

definition tie_state :: "real \<Rightarrow> nat \<Rightarrow> (addr \<times> nat) list \<Rightarrow> taskmgr" where
  "tie_state ts r h =
     taskmgr_start
       \<lparr>taskmgr_next_task_id := 0,
        taskmgr_task_queue := Some [7],
        taskmgr_scheduler_queue := Some [],
        tasks := [7 \<mapsto> \<lparr>task_id = 0, func = 0, args = 0, delayable = 1,
                        delay = nine_tenths, timestamp = ts, mutex = False\<rparr>],
        frames := 1, reads := r, invocations := h\<rparr>"

subsection \<open>Histories of calls\<close>

text \<open>
  A process lifetime is a sequence of calls of the public functions. \<open>exec\<close> runs one
  call and reports the id it has handed out, if any: the id that \<^verbatim>\<open>add_task\<close> or
  \<^verbatim>\<open>add_scheduler\<close> wrote into the object it allocated (for \<^verbatim>\<open>add_scheduler\<close> also when it
  then returns NULL because the thread could not be set up). The run loop is a
  sequence of ticks and needs no call of its own.
\<close>

datatype call =
    Init
  | Shutdown
  | Tick
  | AddTask "addr option" nat real va_list
  | RemoveTask addr
  | RemoveTaskById int
  | FreeTask addr
  | FreeTaskById int
  | AddScheduler "addr option" int int
  | RemoveScheduler addr
  | RemoveSchedulerById int
  | FreeScheduler addr
  | FreeSchedulerById int

datatype event = TaskId int | SchedulerId int

definition dropping :: "fault + ('a \<times> taskmgr) \<Rightarrow> fault + (event list \<times> taskmgr)" where
  "dropping r = (case r of Inl e \<Rightarrow> Inl e | Inr (_, st') \<Rightarrow> Inr ([], st'))"

fun exec :: "env \<Rightarrow> call \<Rightarrow> taskmgr \<Rightarrow> fault + (event list \<times> taskmgr)" where
  "exec E Init st = Inr ([], snd (taskmgr_init st))"
| "exec E Shutdown st = dropping (taskmgr_shutdown st)"
| "exec E Tick st = dropping (taskmgr_tick E st)"
| "exec E (AddTask p f d va) st =
     (case add_task E p f d va st of
        Inl e \<Rightarrow> Inl e
      | Inr (task, st') \<Rightarrow>
          (case live_task st' task of
             None \<Rightarrow> Inr ([], st')
           | Some t \<Rightarrow> Inr ([TaskId (task_id t)], st')))"
| "exec E (RemoveTask task) st = dropping (remove_task st task)"
| "exec E (RemoveTaskById ident) st = dropping (remove_task_by_id st ident)"
| "exec E (FreeTask task) st = dropping (free_task st task)"
| "exec E (FreeTaskById ident) st = dropping (free_task_by_id st ident)"
| "exec E (AddScheduler p attr_rc create_rc) st =
     (case add_scheduler p attr_rc create_rc st of
        Inl e \<Rightarrow> Inl e
      | Inr (_, st') \<Rightarrow>
          (case p of
             None \<Rightarrow> Inr ([], st')
           | Some s \<Rightarrow>
               (case live_scheduler st' s of
                  None \<Rightarrow> Inr ([], st')
                | Some r \<Rightarrow> Inr ([SchedulerId (scheduler_id r)], st'))))"
| "exec E (RemoveScheduler s) st = dropping (remove_scheduler st s)"
| "exec E (RemoveSchedulerById ident) st = dropping (remove_scheduler_by_id st ident)"
| "exec E (FreeScheduler s) st = dropping (free_scheduler st s)"
| "exec E (FreeSchedulerById ident) st = dropping (free_scheduler_by_id st ident)"

fun exec_all :: "env \<Rightarrow> call list \<Rightarrow> taskmgr \<Rightarrow> fault + (event list \<times> taskmgr)" where
  "exec_all E [] st = Inr ([], st)"
| "exec_all E (c # cs) st =
     (case exec E c st of
        Inl e \<Rightarrow> Inl e
      | Inr (evs, st') \<Rightarrow>
          (case exec_all E cs st' of
             Inl e \<Rightarrow> Inl e
           | Inr (evs', st'') \<Rightarrow> Inr (evs @ evs', st'')))"

fun task_ids :: "event list \<Rightarrow> int list" where
  "task_ids [] = []"
| "task_ids (TaskId i # evs) = i # task_ids evs"
| "task_ids (SchedulerId i # evs) = task_ids evs"

fun scheduler_ids :: "event list \<Rightarrow> int list" where
  "scheduler_ids [] = []"
| "scheduler_ids (TaskId i # evs) = scheduler_ids evs"
| "scheduler_ids (SchedulerId i # evs) = i # scheduler_ids evs"

text \<open>
  \<open>rising lo hi ids\<close>: the ids are strictly increasing and lie above \<open>lo\<close>, up to \<open>hi\<close>.
\<close>

definition rising :: "int \<Rightarrow> int \<Rightarrow> int list \<Rightarrow> bool" where
  "rising lo hi ids = (lo \<le> hi \<and> sorted_wrt (<) ids \<and> (\<forall>i \<in> set ids. lo < i \<and> i \<le> hi))"

text \<open>
  \<open>queued st\<close> is the set of handles in the task queue. \<open>allocates c a\<close> says that the
  call \<open>c\<close> is an \<^verbatim>\<open>add_task\<close> whose \<^verbatim>\<open>malloc\<close> hands out the address \<open>a\<close>.
  \<open>destroyed st a\<close>: the task with handle \<open>a\<close> is freed and its memory carries the
  sentinel id. \<open>id_retired E st i\<close>: after every later history of calls that runs
  without a fault, every task id handed out is greater than \<open>i\<close>, so \<open>i\<close> is not
  given to a new task. \<open>unfindable E st a\<close>: after every later history of calls that
  runs without a fault and in which the allocator does not hand out the address \<open>a\<close>
  again, \<^verbatim>\<open>has_task\<close> does not report the handle \<open>a\<close> as present and \<^verbatim>\<open>get_task_by_id\<close>
  returns it for no id.
\<close>

definition queued :: "taskmgr \<Rightarrow> addr set" where
  "queued st = (case taskmgr_task_queue st of None \<Rightarrow> {} | Some q \<Rightarrow> set q)"





subsection \<open>Reading the invocation history\<close>




text \<open>
  The state after \<^verbatim>\<open>free_task_by_id(0)\<close> on \<open>one_task d\<close>: the task at address 7 is freed,
  its handle is still in the queue.
\<close>

definition freed_in_queue :: "real \<Rightarrow> taskmgr" where
  "freed_in_queue d =
     (one_task d)
       \<lparr>tasks := [7 \<mapsto> \<lparr>task_id = -1, func = 0, args = 0, delayable = 0, delay = 0,
                        timestamp = 0, mutex = False\<rparr>],
        tasks_freed := {7}\<rparr>"

text \<open>
  Two tasks in the queue (a second \<^verbatim>\<open>add_task(f, 0)\<close> on \<open>one_task 0\<close>, with \<^verbatim>\<open>malloc\<close>
  returning address 8), and then two schedulers: scheduler 3 is created and its thread
  has set the running flag and stands at the head of its loop, then scheduler 4 is
  created (lemma \<open>two_schedulers_reached\<close>).
\<close>

definition two_tasks :: taskmgr where
  "two_tasks =
     taskmgr_start
       \<lparr>taskmgr_next_task_id := 1,
        taskmgr_task_queue := Some [7, 8],
        taskmgr_scheduler_queue := Some [],
        tasks := [7 \<mapsto> \<lparr>task_id = 0, func = 0, args = 0, delayable = 1, delay = 0,
                        timestamp = 0, mutex = False\<rparr>,
                  8 \<mapsto> \<lparr>task_id = 1, func = 0, args = 1, delayable = 1, delay = 0,
                        timestamp = 1, mutex = False\<rparr>],
        frames := 2, reads := 2\<rparr>"

definition two_schedulers :: taskmgr where
  "two_schedulers =
     two_tasks
       \<lparr>taskmgr_running := 1,
        taskmgr_next_scheduler_id := 1,
        taskmgr_scheduler_queue := Some [3, 4],
        schedulers := [3 \<mapsto> \<lparr>scheduler_id = 0\<rparr>, 4 \<mapsto> \<lparr>scheduler_id = 1\<rparr>],
        threads := [3, 4]\<rparr>"

section \<open>Properties\<close>

declare get_task_loop.simps [simp del]
declare get_scheduler_loop.simps [simp del]

subsection \<open>Rounding to a double\<close>

lemma round_even_of_int [simp]: "round_even (of_int k) = k"
  by (simp add: round_even_def)


lemma floor_log2_eq:
  assumes "0 < x" and "2 powi e \<le> x" and "x < 2 powi (e + 1)"
  shows "\<lfloor>log 2 x\<rfloor> = e"
proof -
  have p: "2 powr (of_int k) = (2::real) powi k" for k
    by (simp add: powr_real_of_int' power_int_def)
  have "of_int e \<le> log 2 x" using assms by (simp add: le_log_iff p)
  moreover have "log 2 x < of_int (e + 1)"
    using assms by (subst log_less_iff) (simp_all add: p del: of_int_add)
  ultimately show ?thesis by (simp add: floor_eq_iff)
qed

lemma floor_log2_bounds:
  assumes "0 < x"
  shows "2 powi \<lfloor>log 2 x\<rfloor> \<le> x" and "x < 2 powi (\<lfloor>log 2 x\<rfloor> + 1)"
proof -
  have p: "2 powr (of_int k) = (2::real) powi k" for k
    by (simp add: powr_real_of_int' power_int_def)
  have "of_int \<lfloor>log 2 x\<rfloor> \<le> log 2 x" by simp
  then show "2 powi \<lfloor>log 2 x\<rfloor> \<le> x" using assms by (simp add: le_log_iff p del: of_int_floor_le)
  have "log 2 x < of_int (\<lfloor>log 2 x\<rfloor> + 1)" by linarith
  then show "x < 2 powi (\<lfloor>log 2 x\<rfloor> + 1)"
    using assms by (subst (asm) log_less_iff) (simp_all add: p del: of_int_add)
qed

lemma to_double_at:
  assumes "0 < x" and "2 powi e \<le> x" and "x < 2 powi (e + 1)"
  shows "to_double x = of_int (round_even (x / 2 powi (e - 52))) * 2 powi (e - 52)"
  using assms floor_log2_eq[OF assms] by (simp add: to_double_def)

lemma to_double_tie: "to_double (1 - 3602879701896397 / 2 ^ 55) = 8106479329266893 / 2 ^ 53"
proof -
  have x: "(1 - 3602879701896397 / 2 ^ 55 :: real) = 32425917317067571 / 2 ^ 55" by simp
  have m: "(32425917317067571 / 2 ^ 55 :: real) / 2 powi (- 1 - 52) = 32425917317067571 / 4"
    by (simp add: power_int_minus)
  have f: "\<lfloor>32425917317067571 / 4 :: real\<rfloor> = 8106479329266892"
    by (simp add: floor_eq_iff)
  have r: "round_even (32425917317067571 / 4) = 8106479329266893"
    by (simp add: round_even_def f)
  have "to_double (32425917317067571 / 2 ^ 55) =
          of_int (round_even ((32425917317067571 / 2 ^ 55) / 2 powi (- 1 - 52))) * 2 powi (- 1 - 52)"
    by (rule to_double_at) (simp_all add: power_int_minus)
  then show ?thesis by (simp add: x m r power_int_minus)
qed

lemma round_even_nonneg: "0 \<le> m \<Longrightarrow> 0 \<le> round_even m"
  by (auto simp: round_even_def)

lemma to_double_nonneg: "0 \<le> x \<Longrightarrow> 0 \<le> to_double x"
  by (auto simp: to_double_def round_even_nonneg)



lemma to_double_of_int:
  assumes "\<bar>k\<bar> < 2 ^ 53"
  shows "to_double (of_int k) = of_int k"
proof (cases "k = 0")
  case True
  then show ?thesis by (simp add: to_double_def)
next
  case False
  define a :: real where "a = \<bar>of_int k\<bar>"
  define e where "e = \<lfloor>log 2 a\<rfloor>"
  from False have a0: "0 < a" by (simp add: a_def)
  from floor_log2_bounds(1)[OF a0] have lo: "2 powi e \<le> a" by (simp add: e_def)
  from assms have "a < 2 ^ 53" unfolding a_def
    by (metis of_int_abs of_int_less_numeral_power_cancel_iff)
  with lo have "(2::real) powi e < 2 powi 53" by simp
  then have "e < 53" by (rule power_int_le_imp_less_exp[rotated]) simp_all
  then have e52: "e \<le> 52" by simp
  define n where "n = nat (52 - e)"
  from e52 have en: "e - 52 = - int n" by (simp add: n_def)
  define u :: real where "u = 2 powi (e - 52)"
  have u: "u = inverse (2 ^ n)"
    by (simp add: u_def en power_int_minus)
  have "a / u = of_int (\<bar>k\<bar> * 2 ^ n)"
    by (simp add: u a_def divide_inverse)
  then have r: "round_even (a / u) = \<bar>k\<bar> * 2 ^ n"
    by (simp only: round_even_of_int)
  have "to_double (of_int k) = sgn (of_int k) * of_int (round_even (a / u)) * u"
    using False by (simp add: to_double_def a_def e_def u_def)
  also have "\<dots> = sgn (of_int k) * (of_int (\<bar>k\<bar> * 2 ^ n) * u)"
    by (simp only: r mult.assoc)
  also have "of_int (\<bar>k\<bar> * 2 ^ n) * u = \<bar>of_int k :: real\<bar>"
    by (simp add: u)
  also have "sgn (of_int k) * \<bar>of_int k :: real\<bar> = of_int k" by (simp add: sgn_mult_abs)
  finally show ?thesis .
qed

lemma to_double_numeral [simp]:
  "numeral w < (2::int) ^ 53 \<Longrightarrow> to_double (numeral w) = numeral w"
  using to_double_of_int[of "numeral w"] by simp

lemma to_double_0 [simp]: "to_double 0 = 0"
  by (simp add: to_double_def)

lemma to_double_1 [simp]: "to_double 1 = 1"
  using to_double_of_int[of 1] by simp

lemma round_even_mono: "m \<le> n \<Longrightarrow> round_even m \<le> round_even n"
proof -
  assume mn: "m \<le> n"
  have lo: "\<lfloor>x\<rfloor> \<le> round_even x" and hi: "round_even x \<le> \<lfloor>x\<rfloor> + 1" for x
    by (simp_all add: round_even_def)
  show ?thesis
  proof (cases "\<lfloor>m\<rfloor> = \<lfloor>n\<rfloor>")
    case True
    with mn show ?thesis by (auto simp: round_even_def)
  next
    case False
    with floor_mono[OF mn] have "\<lfloor>m\<rfloor> + 1 \<le> \<lfloor>n\<rfloor>" by simp
    with hi[of m] lo[of n] show ?thesis by linarith
  qed
qed

lemma to_double_pos_bounds:
  assumes "0 < x"
  shows "2 powi \<lfloor>log 2 x\<rfloor> \<le> to_double x" and "to_double x \<le> 2 powi (\<lfloor>log 2 x\<rfloor> + 1)"
proof -
  define e where "e = \<lfloor>log 2 x\<rfloor>"
  define u :: real where "u = 2 powi (e - 52)"
  have u0: "0 < u" by (simp add: u_def)
  have ue: "2 ^ 52 * u = 2 powi e" "2 ^ 53 * u = 2 powi (e + 1)"
    by (simp_all add: u_def power_int_diff power_int_add)
  from floor_log2_bounds[OF assms] have b: "2 powi e \<le> x" "x < 2 powi (e + 1)"
    by (simp_all add: e_def)
  have td: "to_double x = of_int (round_even (x / u)) * u"
    unfolding u_def by (rule to_double_at[OF assms b])
  from b(1) have "2 ^ 52 * u \<le> x" by (simp only: ue)
  with u0 have "(2 ^ 52 :: real) \<le> x / u" by (simp only: pos_le_divide_eq)
  then have "of_int (2 ^ 52) \<le> x / u" by simp
  from round_even_mono[OF this] have "2 ^ 52 \<le> round_even (x / u)"
    by (simp only: round_even_of_int)
  then have "(2 ^ 52 :: real) \<le> of_int (round_even (x / u))"
    by (metis of_int_le_iff of_int_numeral of_int_power)
  with u0 have "2 ^ 52 * u \<le> of_int (round_even (x / u)) * u" by simp
  then have "2 powi e \<le> to_double x" by (simp only: td ue)
  then show "2 powi \<lfloor>log 2 x\<rfloor> \<le> to_double x" by (simp only: e_def)
  from b(2) have "x \<le> 2 ^ 53 * u" by (simp only: ue)
  with u0 have "x / u \<le> (2 ^ 53 :: real)" by (simp only: pos_divide_le_eq)
  then have "x / u \<le> of_int (2 ^ 53)" by simp
  from round_even_mono[OF this] have "round_even (x / u) \<le> 2 ^ 53"
    by (simp only: round_even_of_int)
  then have "of_int (round_even (x / u)) \<le> (2 ^ 53 :: real)"
    by (metis of_int_le_iff of_int_numeral of_int_power)
  with u0 have "of_int (round_even (x / u)) * u \<le> 2 ^ 53 * u" by simp
  then have "to_double x \<le> 2 powi (e + 1)" by (simp only: td ue)
  then show "to_double x \<le> 2 powi (\<lfloor>log 2 x\<rfloor> + 1)" by (simp only: e_def)
qed

lemma to_double_mono_pos:
  assumes "0 < x" and "x \<le> y"
  shows "to_double x \<le> to_double y"
proof -
  from assms have y0: "0 < y" by simp
  have le: "\<lfloor>log 2 x\<rfloor> \<le> \<lfloor>log 2 y\<rfloor>"
    using assms by (intro floor_mono) simp
  show ?thesis
  proof (cases "\<lfloor>log 2 x\<rfloor> = \<lfloor>log 2 y\<rfloor>")
    case True
    define u :: real where "u = 2 powi (\<lfloor>log 2 y\<rfloor> - 52)"
    have u0: "0 < u" by (simp add: u_def)
    from assms(2) u0 have "x / u \<le> y / u" by (simp add: divide_right_mono)
    from round_even_mono[OF this]
    have "(of_int (round_even (x / u)) :: real) \<le> of_int (round_even (y / u))" by simp
    with u0 have "of_int (round_even (x / u)) * u \<le> of_int (round_even (y / u)) * u" by simp
    with assms(1) y0 True show ?thesis by (simp add: to_double_def u_def)
  next
    case False
    with le have "\<lfloor>log 2 x\<rfloor> + 1 \<le> \<lfloor>log 2 y\<rfloor>" by simp
    then have "(2::real) powi (\<lfloor>log 2 x\<rfloor> + 1) \<le> 2 powi \<lfloor>log 2 y\<rfloor>"
      by (intro power_int_increasing) simp_all
    with to_double_pos_bounds(2)[OF assms(1)] to_double_pos_bounds(1)[OF y0]
    show ?thesis by linarith
  qed
qed

lemma to_double_minus: "to_double (- x) = - to_double x"
  by (simp add: to_double_def sgn_minus)

lemma to_double_mono:
  assumes "x \<le> y"
  shows "to_double x \<le> to_double y"
proof -
  consider "0 < x" | "x \<le> 0" "0 \<le> y" | "y < 0" by linarith
  then show ?thesis
  proof cases
    case 1
    from to_double_mono_pos[OF 1 assms] show ?thesis .
  next
    case 2
    from to_double_nonneg[of "- x"] 2(1) have "to_double x \<le> 0" by (simp add: to_double_minus)
    with to_double_nonneg[OF 2(2)] show ?thesis by simp
  next
    case 3
    then have "0 < - y" "- y \<le> - x" using assms by simp_all
    from to_double_mono_pos[OF this] show ?thesis by (simp add: to_double_minus)
  qed
qed

lemma exact_due:
  assumes "to_double d = d" and "ts + d \<le> now"
  shows "d \<le> to_double (now - ts)"
proof -
  from assms(2) have "d \<le> now - ts" by simp
  from to_double_mono[OF this] assms(1) show ?thesis by simp
qed



lemma tie_second: "to_double (1 - tenth) = nine_tenths" "1 - tenth < nine_tenths"
  using to_double_tie by (simp_all add: tenth_def nine_tenths_def)

subsection \<open>Auxiliary facts\<close>

lemma live_task_frame [simp]:
  "live_task (st\<lparr>taskmgr_task_queue := x\<rparr>) = live_task st"
  "live_task (st\<lparr>reads := n\<rparr>) = live_task st"
  "live_task (st\<lparr>invocations := l\<rparr>) = live_task st"
  "live_task (st\<lparr>taskmgr_running := r\<rparr>) = live_task st"
  by (simp_all add: live_task_def fun_eq_iff)

lemma live_task_store:
  "live_task (store_task st a t) b =
     (if b = a then (if a \<in> tasks_freed st then None else Some t) else live_task st b)"
  by (simp add: live_task_def store_task_def)

lemma one_task_reached:
  "add_task (sample_env r) (Some 7) 0 d [42] (snd (taskmgr_init taskmgr_start))
     = Inr (7, one_task d)"
  by (simp add: add_task_def taskmgr_init_def taskmgr_start_def one_task_def Let_def
      INT_MAX_def get_current_time_def sample_env_def store_task_def push_task_def
      queue_push_right_def queue_init_def)

lemma queue_index_from_absent: "x \<notin> set q \<Longrightarrow> queue_index_from i q x = -1"
  by (induction q arbitrary: i) auto


lemma get_task_loop_absent:
  "\<forall>a \<in> set q. \<exists>t. live_task st a = Some t \<and> task_id t \<noteq> ident \<Longrightarrow>
   get_task_loop st q ident i = Inr None"
proof (induction st q ident i rule: get_task_loop.induct)
  case (1 st q ident i)
  show ?case
  proof (cases "0 \<le> i \<and> i \<le> max_index q")
    case True
    then have "nat i < length q" by (simp add: max_index_def nat_less_iff)
    then have "queue_get q i \<in> set q" by (simp add: queue_get_def)
    with "1.prems" obtain t where t: "live_task st (queue_get q i) = Some t" "task_id t \<noteq> ident"
      by blast
    with True "1.IH"[OF True t(1)] "1.prems" show ?thesis
      by (subst get_task_loop.simps) simp
  next
    case False
    then show ?thesis by (subst get_task_loop.simps) auto
  qed
qed

subsection \<open>One tick\<close>

lemma tick_empty:
  "taskmgr_task_queue st = Some [] \<Longrightarrow> taskmgr_tick E st = Inr (0, st)"
  by (simp add: taskmgr_tick_def queue_get_empty_def)

lemma tick_not_due:
  assumes "taskmgr_task_queue st = Some (task # rest)"
    and "live_task st task = Some t"
    and "delayable t \<noteq> 0"
    and "to_double (clock E (reads st) - timestamp t) < delay t"
  shows "taskmgr_tick E st =
           Inr (0, st\<lparr>taskmgr_task_queue := Some (rest @ [task]), reads := Suc (reads st)\<rparr>)"
  using assms
  by (simp add: taskmgr_tick_def queue_get_empty_def queue_pop_left_def Let_def
      get_current_time_def push_task_def queue_push_right_def)

lemma process_result_eq:
  assumes "live_task st task = Some t" and "\<not> mutex t"
    and "taskmgr_task_queue st = Some q"
  shows "process_result E result task st =
     Inr (case result of
        TASK_RESULT_CONT \<Rightarrow>
          st\<lparr>tasks := (tasks st)(task \<mapsto> t\<lparr>delayable := 0\<rparr>),
             taskmgr_task_queue := Some (q @ [task])\<rparr>
      | TASK_RESULT_WAIT \<Rightarrow>
          st\<lparr>tasks := (tasks st)
                 (task \<mapsto> t\<lparr>delayable := 1, timestamp := clock E (reads st)\<rparr>),
             reads := Suc (reads st),
             taskmgr_task_queue := Some (q @ [task])\<rparr>
      | _ \<Rightarrow>
          st\<lparr>tasks := (tasks st)
                 (task \<mapsto> t\<lparr>task_id := -1, delayable := 0, delay := 0, timestamp := 0\<rparr>),
             tasks_freed := insert task (tasks_freed st)\<rparr>)"
  using assms
  by (cases result)
     (simp_all add: process_result_def store_task_def push_task_def queue_push_right_def
        get_current_time_def free_task_def live_task_def)

lemma run_task_eq:
  assumes "live_task st task = Some t" and "\<not> mutex t"
    and "funcs E (func t) task (va_store st (args t))
           (st\<lparr>tasks := (tasks st)(task \<mapsto> t\<lparr>mutex := True\<rparr>),
               invocations := invocations st @ [(task, reads st)]\<rparr>) = (result, st')"
    and "live_task st' task = Some t'" and "mutex t'"
  shows "run_task E task st =
           process_result E result task (st'\<lparr>tasks := (tasks st')(task \<mapsto> t'\<lparr>mutex := False\<rparr>)\<rparr>)"
  using assms
  by (simp add: run_task_def store_task_def Let_def)

lemma tick_due:
  assumes q: "taskmgr_task_queue st = Some (task # rest)"
    and live: "live_task st task = Some t" "\<not> mutex t"
    and due: "\<not> (delayable t \<noteq> 0 \<and> to_double (clock E (reads st) - timestamp t) < delay t)"
    and r: "r = (if delayable t \<noteq> 0 then Suc (reads st) else reads st)"
    and call: "funcs E (func t) task (va_store st (args t))
                 (st\<lparr>taskmgr_task_queue := Some rest, reads := r,
                     tasks := (tasks st)(task \<mapsto> t\<lparr>mutex := True\<rparr>),
                     invocations := invocations st @ [(task, r)]\<rparr>) = (result, st')"
    and after: "live_task st' task = Some t'" "mutex t'" "taskmgr_task_queue st' = Some q'"
  shows "taskmgr_tick E st =
     Inr (0, case result of
        TASK_RESULT_CONT \<Rightarrow>
          st'\<lparr>tasks := (tasks st')(task \<mapsto> t'\<lparr>mutex := False, delayable := 0\<rparr>),
              taskmgr_task_queue := Some (q' @ [task])\<rparr>
      | TASK_RESULT_WAIT \<Rightarrow>
          st'\<lparr>tasks := (tasks st')
                  (task \<mapsto> t'\<lparr>mutex := False, delayable := 1,
                              timestamp := clock E (reads st')\<rparr>),
              reads := Suc (reads st'),
              taskmgr_task_queue := Some (q' @ [task])\<rparr>
      | _ \<Rightarrow>
          st'\<lparr>tasks := (tasks st')
                  (task \<mapsto> t'\<lparr>mutex := False, task_id := -1, delayable := 0,
                              delay := 0, timestamp := 0\<rparr>),
              tasks_freed := insert task (tasks_freed st')\<rparr>)"
proof -
  let ?s1 = "st\<lparr>taskmgr_task_queue := Some rest, reads := r\<rparr>"
  let ?st'' = "st'\<lparr>tasks := (tasks st')(task \<mapsto> t'\<lparr>mutex := False\<rparr>)\<rparr>"
  have nf: "task \<notin> tasks_freed st'"
    using after(1) by (auto simp: live_task_def split: if_splits)
  have l1: "live_task ?s1 task = Some t" using live by simp
  have c1: "funcs E (func t) task (va_store ?s1 (args t))
              (?s1\<lparr>tasks := (tasks ?s1)(task \<mapsto> t\<lparr>mutex := True\<rparr>),
                   invocations := invocations ?s1 @ [(task, reads ?s1)]\<rparr>) = (result, st')"
    using call by simp
  have run: "run_task E task ?s1 = process_result E result task ?st''"
    by (rule run_task_eq[OF l1 live(2) c1 after(1,2)])
  have l2: "live_task ?st'' task = Some (t'\<lparr>mutex := False\<rparr>)"
    using nf by (simp add: live_task_def)
  have q2: "taskmgr_task_queue ?st'' = Some q'" using after(3) by simp
  have pr: "process_result E result task ?st'' = Inr
      (case result of
        TASK_RESULT_CONT \<Rightarrow>
          st'\<lparr>tasks := (tasks st')(task \<mapsto> t'\<lparr>mutex := False, delayable := 0\<rparr>),
              taskmgr_task_queue := Some (q' @ [task])\<rparr>
      | TASK_RESULT_WAIT \<Rightarrow>
          st'\<lparr>tasks := (tasks st')
                  (task \<mapsto> t'\<lparr>mutex := False, delayable := 1,
                              timestamp := clock E (reads st')\<rparr>),
              reads := Suc (reads st'),
              taskmgr_task_queue := Some (q' @ [task])\<rparr>
      | _ \<Rightarrow>
          st'\<lparr>tasks := (tasks st')
                  (task \<mapsto> t'\<lparr>mutex := False, task_id := -1, delayable := 0,
                              delay := 0, timestamp := 0\<rparr>),
              tasks_freed := insert task (tasks_freed st')\<rparr>)"
    by (subst process_result_eq[OF l2 _ q2]) (simp_all split: task_result_t.splits)
  show ?thesis
  proof (cases "delayable t \<noteq> 0")
    case True
    with due have nd: "\<not> to_double (clock E (reads st) - timestamp t) < delay t" by simp
    from True r have r': "r = Suc (reads st)" by simp
    show ?thesis
      using q live(1) True nd run pr
      by (simp add: taskmgr_tick_def queue_get_empty_def queue_pop_left_def Let_def
          get_current_time_def r')
  next
    case False
    with r have r': "r = reads st" by simp
    have "?s1 = st\<lparr>taskmgr_task_queue := Some rest\<rparr>" by (simp add: r')
    with run have run': "run_task E task (st\<lparr>taskmgr_task_queue := Some rest\<rparr>)
        = process_result E result task ?st''" by simp
    show ?thesis
      using q live(1) False run' pr
      by (simp add: taskmgr_tick_def queue_get_empty_def queue_pop_left_def Let_def)
  qed
qed


lemma tick_due_passive:
  assumes q: "taskmgr_task_queue st = Some (task # rest)"
    and live: "live_task st task = Some t" "\<not> mutex t"
    and due: "\<not> (delayable t \<noteq> 0 \<and> to_double (clock E (reads st) - timestamp t) < delay t)"
    and r: "r = (if delayable t \<noteq> 0 then Suc (reads st) else reads st)"
    and call: "funcs E (func t) task (va_store st (args t))
                 (st\<lparr>taskmgr_task_queue := Some rest, reads := r,
                     tasks := (tasks st)(task \<mapsto> t\<lparr>mutex := True\<rparr>),
                     invocations := invocations st @ [(task, r)]\<rparr>)
               = (result,
                  st\<lparr>taskmgr_task_queue := Some rest, reads := r,
                     tasks := (tasks st)(task \<mapsto> t\<lparr>mutex := True\<rparr>),
                     invocations := invocations st @ [(task, r)]\<rparr>)"
  shows "taskmgr_tick E st =
     Inr (0, case result of
        TASK_RESULT_CONT \<Rightarrow>
          st\<lparr>reads := r, invocations := invocations st @ [(task, r)],
             tasks := (tasks st)(task \<mapsto> t\<lparr>delayable := 0\<rparr>),
             taskmgr_task_queue := Some (rest @ [task])\<rparr>
      | TASK_RESULT_WAIT \<Rightarrow>
          st\<lparr>invocations := invocations st @ [(task, r)],
             tasks := (tasks st)(task \<mapsto> t\<lparr>delayable := 1, timestamp := clock E r\<rparr>),
             reads := Suc r,
             taskmgr_task_queue := Some (rest @ [task])\<rparr>
      | _ \<Rightarrow>
          st\<lparr>reads := r, invocations := invocations st @ [(task, r)],
             taskmgr_task_queue := Some rest,
             tasks := (tasks st)
                  (task \<mapsto> t\<lparr>task_id := -1, delayable := 0, delay := 0, timestamp := 0\<rparr>),
             tasks_freed := insert task (tasks_freed st)\<rparr>)"
proof -
  let ?in = "st\<lparr>taskmgr_task_queue := Some rest, reads := r,
                 tasks := (tasks st)(task \<mapsto> t\<lparr>mutex := True\<rparr>),
                 invocations := invocations st @ [(task, r)]\<rparr>"
  have nf: "task \<notin> tasks_freed st"
    using live(1) by (auto simp: live_task_def split: if_splits)
  have l: "live_task ?in task = Some (t\<lparr>mutex := True\<rparr>)"
    using nf by (simp add: live_task_def)
  have m: "mutex (t\<lparr>mutex := True\<rparr>)" by simp
  have q': "taskmgr_task_queue ?in = Some rest" by simp
  have u: "t\<lparr>mutex := False\<rparr> = t" using live(2) by simp
  show ?thesis
    by (subst tick_due[OF q live due r call l m q']) (simp add: u split: task_result_t.splits)
qed



lemma tie_tick2:
  "taskmgr_tick tie_env (tie_state tenth 3 [(7, 2)])
     = Inr (0, tie_state 1 5 [(7, 2), (7, 4)])"
proof -
  let ?st = "tie_state tenth 3 [(7, 2)]"
  let ?t = "\<lparr>task_id = 0, func = 0, args = 0, delayable = 1,
              delay = nine_tenths, timestamp = tenth, mutex = False\<rparr>"
  have q: "taskmgr_task_queue ?st = Some (7 # [])" by (simp add: tie_state_def)
  have l: "live_task ?st 7 = Some ?t"
    by (simp add: tie_state_def live_task_def taskmgr_start_def)
  have m: "\<not> mutex ?t" by simp
  have d: "\<not> (delayable ?t \<noteq> 0 \<and> to_double (clock tie_env (reads ?st) - timestamp ?t) < delay ?t)"
    using tie_second(1) by (simp add: tie_env_def tie_state_def)
  have r: "4 = (if delayable ?t \<noteq> 0 then Suc (reads ?st) else reads ?st)"
    by (simp add: tie_state_def)
  have c: "funcs tie_env (func ?t) 7 (va_store ?st (args ?t))
                 (?st\<lparr>taskmgr_task_queue := Some [], reads := 4,
                     tasks := (tasks ?st)(7 \<mapsto> ?t\<lparr>mutex := True\<rparr>),
                     invocations := invocations ?st @ [(7, 4)]\<rparr>)
               = (TASK_RESULT_WAIT,
                  ?st\<lparr>taskmgr_task_queue := Some [], reads := 4,
                     tasks := (tasks ?st)(7 \<mapsto> ?t\<lparr>mutex := True\<rparr>),
                     invocations := invocations ?st @ [(7, 4)]\<rparr>)"
    by (simp add: tie_env_def always_def)
  show ?thesis
    by (subst tick_due_passive[OF q l m d r c])
       (simp add: tie_state_def tie_env_def taskmgr_start_def)
qed


text \<open>
  Claim C1, as amended. One call of \<^verbatim>\<open>taskmgr_tick\<close> on a state \<open>st\<close> whose queue exists
  does one unit of scheduling work, in three cases. The queue is empty: it returns 0
  and the state is unchanged. The front task is allocated, delayable and not yet due
  by the dispatcher's check, which is that the double difference \<open>now - timestamp\<close>,
  rounded as the subtraction rounds it, is below \<open>delay\<close>: the handle moves to the
  back, every task is left as it is, and 0 is returned; the only other change is that
  the clock has been read once. The front task is allocated, its guard is free and
  it is due by that check: the front handle is popped and the callable is called with
  the handle and a copy of the \<^verbatim>\<open>va_list\<close> that the task's \<open>args\<close> pointer refers to at
  that moment (\<open>None\<close> when no such object exists any more), on a state in which the
  task's guard is held and the call is recorded; from the state \<open>st'\<close> that the
  callable leaves, with the task still allocated, its guard still held and the queue
  still there, the guard is released and then: on \<open>TASK_RESULT_CONT\<close> \<open>delayable\<close> is
  cleared and the handle pushed to the back; on \<open>TASK_RESULT_WAIT\<close> \<open>delayable\<close> is set,
  \<open>timestamp\<close> becomes the clock's next reading and the handle is pushed to the back; on
  \<open>TASK_RESULT_DONE\<close> and on any other tag the task is destroyed (sentinel id, freed, not
  pushed). The result is 0 each time. Each case has its own hypotheses.
\<close>

theorem taskmgr_tick_unit_of_work:
  "(taskmgr_task_queue st = Some [] \<longrightarrow> taskmgr_tick E st = Inr (0, st)) \<and>
   (taskmgr_task_queue st = Some (task # rest) \<and> live_task st task = Some t \<and>
      delayable t \<noteq> 0 \<and> to_double (clock E (reads st) - timestamp t) < delay t \<longrightarrow>
    taskmgr_tick E st =
      Inr (0, st\<lparr>taskmgr_task_queue := Some (rest @ [task]), reads := Suc (reads st)\<rparr>)) \<and>
   (taskmgr_task_queue st = Some (task # rest) \<and> live_task st task = Some t \<and> \<not> mutex t \<and>
      \<not> (delayable t \<noteq> 0 \<and> to_double (clock E (reads st) - timestamp t) < delay t) \<and>
      r = (if delayable t \<noteq> 0 then Suc (reads st) else reads st) \<and>
      funcs E (func t) task (va_store st (args t))
        (st\<lparr>taskmgr_task_queue := Some rest, reads := r,
            tasks := (tasks st)(task \<mapsto> t\<lparr>mutex := True\<rparr>),
            invocations := invocations st @ [(task, r)]\<rparr>) = (result, st') \<and>
      live_task st' task = Some t' \<and> mutex t' \<and> taskmgr_task_queue st' = Some q' \<longrightarrow>
    taskmgr_tick E st =
      Inr (0, case result of
          TASK_RESULT_CONT \<Rightarrow>
            st'\<lparr>tasks := (tasks st')(task \<mapsto> t'\<lparr>mutex := False, delayable := 0\<rparr>),
                taskmgr_task_queue := Some (q' @ [task])\<rparr>
        | TASK_RESULT_WAIT \<Rightarrow>
            st'\<lparr>tasks := (tasks st')
                    (task \<mapsto> t'\<lparr>mutex := False, delayable := 1,
                                timestamp := clock E (reads st')\<rparr>),
                reads := Suc (reads st'),
                taskmgr_task_queue := Some (q' @ [task])\<rparr>
        | _ \<Rightarrow>
            st'\<lparr>tasks := (tasks st')
                    (task \<mapsto> t'\<lparr>mutex := False, task_id := -1, delayable := 0,
                                delay := 0, timestamp := 0\<rparr>),
                tasks_freed := insert task (tasks_freed st')\<rparr>))"
proof (intro conjI impI; (elim conjE)?)
  assume "taskmgr_task_queue st = Some []"
  then show "taskmgr_tick E st = Inr (0, st)" by (rule tick_empty)
next
  assume "taskmgr_task_queue st = Some (task # rest)" "live_task st task = Some t"
    "delayable t \<noteq> 0" "to_double (clock E (reads st) - timestamp t) < delay t"
  then show "taskmgr_tick E st =
      Inr (0, st\<lparr>taskmgr_task_queue := Some (rest @ [task]), reads := Suc (reads st)\<rparr>)"
    by (rule tick_not_due)
next
  assume a: "taskmgr_task_queue st = Some (task # rest)" "live_task st task = Some t"
    "\<not> mutex t"
    "\<not> (delayable t \<noteq> 0 \<and> to_double (clock E (reads st) - timestamp t) < delay t)"
    "r = (if delayable t \<noteq> 0 then Suc (reads st) else reads st)"
    "funcs E (func t) task (va_store st (args t))
        (st\<lparr>taskmgr_task_queue := Some rest, reads := r,
            tasks := (tasks st)(task \<mapsto> t\<lparr>mutex := True\<rparr>),
            invocations := invocations st @ [(task, r)]\<rparr>) = (result, st')"
    "live_task st' task = Some t'" "mutex t'" "taskmgr_task_queue st' = Some q'"
  show "taskmgr_tick E st =
      Inr (0, case result of
          TASK_RESULT_CONT \<Rightarrow>
            st'\<lparr>tasks := (tasks st')(task \<mapsto> t'\<lparr>mutex := False, delayable := 0\<rparr>),
                taskmgr_task_queue := Some (q' @ [task])\<rparr>
        | TASK_RESULT_WAIT \<Rightarrow>
            st'\<lparr>tasks := (tasks st')
                    (task \<mapsto> t'\<lparr>mutex := False, delayable := 1,
                                timestamp := clock E (reads st')\<rparr>),
                reads := Suc (reads st'),
                taskmgr_task_queue := Some (q' @ [task])\<rparr>
        | _ \<Rightarrow>
            st'\<lparr>tasks := (tasks st')
                    (task \<mapsto> t'\<lparr>mutex := False, task_id := -1, delayable := 0,
                                delay := 0, timestamp := 0\<rparr>),
                tasks_freed := insert task (tasks_freed st')\<rparr>)"
    by (rule tick_due[OF a])
qed

theorem taskmgr_tick_unit_of_work_witness:
  "taskmgr_tick (sample_env TASK_RESULT_WAIT) (snd (taskmgr_init taskmgr_start))
     = Inr (0, snd (taskmgr_init taskmgr_start)) \<and>
   taskmgr_tick (sample_env TASK_RESULT_WAIT) (one_task 5)
     = Inr (0, (one_task 5)\<lparr>reads := 2\<rparr>) \<and>
   taskmgr_tick (sample_env TASK_RESULT_WAIT) (one_task 0)
     = Inr (0, (one_task 0)
          \<lparr>tasks := [7 \<mapsto> \<lparr>task_id = 0, func = 0, args = 0, delayable = 1, delay = 0,
                           timestamp = 2, mutex = False\<rparr>],
           reads := 3, invocations := [(7, 2)]\<rparr>) \<and>
   taskmgr_tick (sample_env TASK_RESULT_CONT) (one_task 0)
     = Inr (0, (one_task 0)
          \<lparr>tasks := [7 \<mapsto> \<lparr>task_id = 0, func = 0, args = 0, delayable = 0, delay = 0,
                           timestamp = 0, mutex = False\<rparr>],
           reads := 2, invocations := [(7, 2)]\<rparr>) \<and>
   taskmgr_tick (sample_env TASK_RESULT_DONE) (one_task 0)
     = Inr (0, (one_task 0)
          \<lparr>taskmgr_task_queue := Some [],
           tasks := [7 \<mapsto> \<lparr>task_id = - 1, func = 0, args = 0, delayable = 0, delay = 0,
                           timestamp = 0, mutex = False\<rparr>],
           tasks_freed := {7},
           reads := 2, invocations := [(7, 2)]\<rparr>)"
proof -
  let ?t = "\<lparr>task_id = 0, func = 0, args = 0, delayable = 1, delay = 0,
              timestamp = 0, mutex = False\<rparr>"
  let ?in = "(one_task 0)\<lparr>taskmgr_task_queue := Some [], reads := 2,
               tasks := [7 \<mapsto> ?t\<lparr>mutex := True\<rparr>], invocations := [(7, 2)]\<rparr>"
  note defs = taskmgr_init_def taskmgr_start_def one_task_def sample_env_def always_def
      live_task_def queue_init_def
  have e: "taskmgr_tick (sample_env TASK_RESULT_WAIT) (snd (taskmgr_init taskmgr_start))
     = Inr (0, snd (taskmgr_init taskmgr_start))"
    using taskmgr_tick_unit_of_work
      [where st = "snd (taskmgr_init taskmgr_start)" and E = "sample_env TASK_RESULT_WAIT",
       THEN conjunct1]
    by (simp add: defs)
  have n: "taskmgr_tick (sample_env TASK_RESULT_WAIT) (one_task 5)
     = Inr (0, (one_task 5)\<lparr>reads := 2\<rparr>)"
    using taskmgr_tick_unit_of_work
      [where st = "one_task 5" and E = "sample_env TASK_RESULT_WAIT" and task = 7
         and rest = "[]"
         and t = "\<lparr>task_id = 0, func = 0, args = 0, delayable = 1, delay = 5,
                    timestamp = 0, mutex = False\<rparr>",
       THEN conjunct2, THEN conjunct1]
    by (simp add: defs)
  have w: "taskmgr_tick (sample_env TASK_RESULT_WAIT) (one_task 0)
     = Inr (0, (one_task 0)
          \<lparr>tasks := [7 \<mapsto> \<lparr>task_id = 0, func = 0, args = 0, delayable = 1, delay = 0,
                           timestamp = 2, mutex = False\<rparr>],
           reads := 3, invocations := [(7, 2)]\<rparr>)"
    using taskmgr_tick_unit_of_work
      [where st = "one_task 0" and E = "sample_env TASK_RESULT_WAIT" and task = 7
         and rest = "[]" and t = ?t and r = 2 and result = TASK_RESULT_WAIT
         and st' = ?in and t' = "?t\<lparr>mutex := True\<rparr>" and q' = "[]",
       THEN conjunct2, THEN conjunct2]
    by (simp add: defs)
  have c: "taskmgr_tick (sample_env TASK_RESULT_CONT) (one_task 0)
     = Inr (0, (one_task 0)
          \<lparr>tasks := [7 \<mapsto> \<lparr>task_id = 0, func = 0, args = 0, delayable = 0, delay = 0,
                           timestamp = 0, mutex = False\<rparr>],
           reads := 2, invocations := [(7, 2)]\<rparr>)"
    using taskmgr_tick_unit_of_work
      [where st = "one_task 0" and E = "sample_env TASK_RESULT_CONT" and task = 7
         and rest = "[]" and t = ?t and r = 2 and result = TASK_RESULT_CONT
         and st' = ?in and t' = "?t\<lparr>mutex := True\<rparr>" and q' = "[]",
       THEN conjunct2, THEN conjunct2]
    by (simp add: defs)
  have d: "taskmgr_tick (sample_env TASK_RESULT_DONE) (one_task 0)
     = Inr (0, (one_task 0)
          \<lparr>taskmgr_task_queue := Some [],
           tasks := [7 \<mapsto> \<lparr>task_id = - 1, func = 0, args = 0, delayable = 0, delay = 0,
                           timestamp = 0, mutex = False\<rparr>],
           tasks_freed := {7},
           reads := 2, invocations := [(7, 2)]\<rparr>)"
    using taskmgr_tick_unit_of_work
      [where st = "one_task 0" and E = "sample_env TASK_RESULT_DONE" and task = 7
         and rest = "[]" and t = ?t and r = 2 and result = TASK_RESULT_DONE
         and st' = ?in and t' = "?t\<lparr>mutex := True\<rparr>" and q' = "[]",
       THEN conjunct2, THEN conjunct2]
    by (simp add: defs)
  from e n w c d show ?thesis by (intro conjI)
qed

text \<open>
  Claim C1 as stated fails in three places. The stored argument set:
  \<^verbatim>\<open>add_task(f, 0, 42)\<close> returns the task 7 in the state \<open>one_task 0\<close>, in which there is no
  \<^verbatim>\<open>va_list\<close> at the address the task has stored; the callable \<open>probe\<close>, which returns
  \<open>TASK_RESULT_CONT\<close> when it is given \<open>[42]\<close>, is not given it, and the tick ends with
  the task destroyed. Every state: after \<^verbatim>\<open>free_task_by_id(0)\<close> the freed task is still
  at the front of the queue and the tick reads freed memory; there is no unit of work
  to speak of. The due check: for the task with timestamp \<open>tenth\<close> and delay
  \<open>nine_tenths\<close> at the clock reading 1, a state reached by \<^verbatim>\<open>add_task\<close> and one tick
  (lemmas \<open>tie_added\<close>, \<open>tie_tick1\<close>), the difference \<open>1 - tenth\<close> is below
  \<open>nine_tenths\<close>, yet the tick does not push the task back unchanged: it calls the
  callable, since the double subtraction rounds up to \<open>nine_tenths\<close> (lemma
  \<open>tie_second\<close>).
\<close>

theorem tick_outside_claim:
  "add_task probe_env (Some 7) 0 0 [42] (snd (taskmgr_init taskmgr_start))
     = Inr (7, one_task 0) \<and>
   va_store (one_task 0) 0 = None \<and>
   fst (probe 7 (Some [42]) (one_task 0)) = TASK_RESULT_CONT \<and>
   taskmgr_tick probe_env (one_task 0)
     = Inr (0, (one_task 0)
          \<lparr>taskmgr_task_queue := Some [],
           tasks := [7 \<mapsto> \<lparr>task_id = - 1, func = 0, args = 0, delayable = 0, delay = 0,
                           timestamp = 0, mutex = False\<rparr>],
           tasks_freed := {7},
           reads := 2, invocations := [(7, 2)]\<rparr>) \<and>
   free_task_by_id (one_task 0) 0 = Inr (0, freed_in_queue 0) \<and>
   taskmgr_tick probe_env (freed_in_queue 0) = Inl UseAfterFree \<and>
   map_option timestamp (tasks (tie_state tenth 3 [(7, 2)]) 7) = Some tenth \<and>
   map_option delay (tasks (tie_state tenth 3 [(7, 2)]) 7) = Some nine_tenths \<and>
   clock tie_env (reads (tie_state tenth 3 [(7, 2)])) = 1 \<and>
   1 - tenth < nine_tenths \<and>
   taskmgr_tick tie_env (tie_state tenth 3 [(7, 2)])
     = Inr (0, tie_state 1 5 [(7, 2), (7, 4)])"
proof -
  have a: "add_task probe_env (Some 7) 0 0 [42] (snd (taskmgr_init taskmgr_start))
     = Inr (7, one_task 0)"
    by (simp add: add_task_def taskmgr_init_def taskmgr_start_def one_task_def Let_def
      INT_MAX_def get_current_time_def probe_env_def store_task_def push_task_def
      queue_push_right_def queue_init_def)
  have b: "va_store (one_task 0) 0 = None" by (simp add: one_task_def taskmgr_start_def)
  have c: "fst (probe 7 (Some [42]) (one_task 0)) = TASK_RESULT_CONT" by (simp add: probe_def)
  have d: "taskmgr_tick probe_env (one_task 0)
     = Inr (0, (one_task 0)
          \<lparr>taskmgr_task_queue := Some [],
           tasks := [7 \<mapsto> \<lparr>task_id = - 1, func = 0, args = 0, delayable = 0, delay = 0,
                           timestamp = 0, mutex = False\<rparr>],
           tasks_freed := {7},
           reads := 2, invocations := [(7, 2)]\<rparr>)"
    by (simp add: taskmgr_tick_def run_task_def process_result_def free_task_def
        queue_get_empty_def queue_pop_left_def get_current_time_def store_task_def
        live_task_def Let_def one_task_def taskmgr_start_def probe_env_def probe_def)
  have e: "free_task_by_id (one_task 0) 0 = Inr (0, freed_in_queue 0)"
    by (simp add: free_task_by_id_def get_task_by_id_def get_task_loop.simps[of _ _ _ 0]
        max_index_def queue_get_def free_task_def live_task_def store_task_def
        freed_in_queue_def one_task_def taskmgr_start_def)
  have f: "taskmgr_tick probe_env (freed_in_queue 0) = Inl UseAfterFree"
    by (simp add: taskmgr_tick_def queue_get_empty_def queue_pop_left_def live_task_def
        freed_in_queue_def one_task_def taskmgr_start_def)
  have g: "map_option timestamp (tasks (tie_state tenth 3 [(7, 2)]) 7) = Some tenth"
    "map_option delay (tasks (tie_state tenth 3 [(7, 2)]) 7) = Some nine_tenths"
    "clock tie_env (reads (tie_state tenth 3 [(7, 2)])) = 1"
    by (simp_all add: tie_state_def tie_env_def)
  from a b c d e f g tie_second(2) tie_tick2 show ?thesis by (intro conjI)
qed

text \<open>
  Claim C7. When the running flag is already set, \<^verbatim>\<open>taskmgr_run\<close> returns 1 at once, for
  any amount of fuel, with the state (queue, tasks, clock position, invocation history)
  exactly as it was: no tick is executed. The thread body \<^verbatim>\<open>taskmgr_scheduler_run\<close> then
  returns at once as well. \<^verbatim>\<open>add_scheduler\<close> does not touch the flag, so the thread of a
  scheduler created while the flag is set, if it starts before the flag is cleared,
  does no scheduling work.
\<close>

theorem taskmgr_run_guard:
  "taskmgr_running st \<noteq> 0 \<Longrightarrow> add_scheduler p a c st = Inr (Some s, st') \<Longrightarrow>
   taskmgr_run E n st = Inr (Returned (1, st)) \<and>
   taskmgr_scheduler_run E n st = Inr (Returned st) \<and>
   s \<in> set (threads st') \<and>
   taskmgr_running st' = taskmgr_running st \<and>
   taskmgr_scheduler_run E n st' = Inr (Returned st')"
  by (auto simp: taskmgr_run_def taskmgr_scheduler_run_def add_scheduler_def Let_def
      split: if_splits option.splits)

theorem taskmgr_run_guard_witness:
  "taskmgr_run (sample_env TASK_RESULT_DONE) 5 ((one_task 0)\<lparr>taskmgr_running := 1\<rparr>)
     = Inr (Returned (1, (one_task 0)\<lparr>taskmgr_running := 1\<rparr>)) \<and>
   add_scheduler (Some 3) 0 0 ((one_task 0)\<lparr>taskmgr_running := 1\<rparr>)
     = Inr (Some 3, (one_task 0)
         \<lparr>taskmgr_running := 1, taskmgr_next_scheduler_id := 0,
          schedulers := [3 \<mapsto> \<lparr>scheduler_id = 0\<rparr>], threads := [3],
          taskmgr_scheduler_queue := Some [3]\<rparr>) \<and>
   taskmgr_scheduler_run (sample_env TASK_RESULT_DONE) 5
       ((one_task 0)
         \<lparr>taskmgr_running := 1, taskmgr_next_scheduler_id := 0,
          schedulers := [3 \<mapsto> \<lparr>scheduler_id = 0\<rparr>], threads := [3],
          taskmgr_scheduler_queue := Some [3]\<rparr>)
     = Inr (Returned ((one_task 0)
         \<lparr>taskmgr_running := 1, taskmgr_next_scheduler_id := 0,
          schedulers := [3 \<mapsto> \<lparr>scheduler_id = 0\<rparr>], threads := [3],
          taskmgr_scheduler_queue := Some [3]\<rparr>))"
proof -
  have run: "taskmgr_running ((one_task 0)\<lparr>taskmgr_running := 1\<rparr>) \<noteq> 0" by simp
  have add: "add_scheduler (Some 3) 0 0 ((one_task 0)\<lparr>taskmgr_running := 1\<rparr>)
     = Inr (Some 3, (one_task 0)
         \<lparr>taskmgr_running := 1, taskmgr_next_scheduler_id := 0,
          schedulers := [3 \<mapsto> \<lparr>scheduler_id = 0\<rparr>], threads := [3],
          taskmgr_scheduler_queue := Some [3]\<rparr>)"
    by (simp add: add_scheduler_def one_task_def taskmgr_start_def INT_MAX_def Let_def
        queue_push_right_def)
  show ?thesis
    using taskmgr_run_guard[OF run add, of "sample_env TASK_RESULT_DONE" 5] add by simp
qed

text \<open>
  Claim C9. \<^verbatim>\<open>taskmgr_init\<close> called while the running flag is set returns 1, and
  \<^verbatim>\<open>taskmgr_shutdown\<close> called while the flag is clear returns 1. Both calls return (no
  fault), and the state they return, queues and flag included, is the state they were
  given.
\<close>

theorem init_shutdown_guard:
  "taskmgr_running s \<noteq> 0 \<Longrightarrow> taskmgr_running s' = 0 \<Longrightarrow>
   taskmgr_init s = (1, s) \<and> taskmgr_shutdown s' = Inr (1, s')"
  by (simp add: taskmgr_init_def taskmgr_shutdown_def)

theorem init_shutdown_guard_witness:
  "taskmgr_init ((one_task 0)\<lparr>taskmgr_running := 1\<rparr>) = (1, (one_task 0)\<lparr>taskmgr_running := 1\<rparr>) \<and>
   taskmgr_shutdown (one_task 0) = Inr (1, one_task 0)"
  using init_shutdown_guard[of "(one_task 0)\<lparr>taskmgr_running := 1\<rparr>" "one_task 0"]
  by (simp add: one_task_def taskmgr_start_def)

text \<open>
  Claim C10. When every handle in the queue is a task with an id other than \<open>ident\<close>,
  \<^verbatim>\<open>remove_task_by_id(ident)\<close> returns 1 and the state, the queue included, is unchanged.
  When the handle \<open>task\<close> is not in the queue, \<^verbatim>\<open>remove_task(task)\<close> returns 1 without a
  fault and the state is unchanged: the task is not freed.
\<close>

theorem remove_absent_fails:
  "taskmgr_task_queue st = Some q \<Longrightarrow>
   \<forall>a \<in> set q. \<exists>t. live_task st a = Some t \<and> task_id t \<noteq> ident \<Longrightarrow>
   task \<notin> set q \<Longrightarrow>
   remove_task_by_id st ident = Inr (1, st) \<and> remove_task st task = Inr (1, st)"
  by (simp add: remove_task_by_id_def get_task_by_id_def get_task_loop_absent
      remove_task_def queue_remove_object_def queue_get_index_def queue_index_from_absent)

theorem remove_absent_fails_witness:
  "remove_task_by_id (one_task 0) 5 = Inr (1, one_task 0) \<and>
   remove_task (one_task 0) 9 = Inr (1, one_task 0)"
  using remove_absent_fails[of "one_task 0" "[7]" 5 9]
  by (simp add: one_task_def taskmgr_start_def live_task_def)

subsection \<open>Runs of ticks\<close>

lemma add_task_eq:
  assumes "taskmgr_next_task_id st \<noteq> INT_MAX" and "taskmgr_task_queue st = Some q"
  shows "add_task E (Some a) f d va st =
     Inr (a, st\<lparr>frames := Suc (frames st),
                va_store := (va_store st)(frames st := None),
                taskmgr_next_task_id := taskmgr_next_task_id st + 1,
                reads := Suc (reads st),
                tasks := (tasks st)
                  (a \<mapsto> \<lparr>task_id = taskmgr_next_task_id st + 1, func = f, args = frames st,
                          delayable = 1, delay = d, timestamp = clock E (reads st),
                          mutex = False\<rparr>),
                tasks_freed := tasks_freed st - {a},
                taskmgr_task_queue := Some (q @ [a])\<rparr>)"
  using assms
  by (simp add: add_task_def Let_def get_current_time_def store_task_def push_task_def
      queue_push_right_def)

lemma add_task_Inr:
  assumes "add_task E p f d va st = Inr (a, st1)"
  shows "p = Some a \<and> taskmgr_next_task_id st \<noteq> INT_MAX \<and>
         (\<exists>q. taskmgr_task_queue st = Some q)"
  using assms
  by (auto simp: add_task_def Let_def get_current_time_def store_task_def push_task_def
      split: if_splits option.splits sum.splits)

lemma drive_ticks_empty:
  "taskmgr_task_queue st = Some [] \<Longrightarrow> drive_ticks E n st = Inr st"
  by (induction n) (simp_all add: tick_empty)


lemma get_task_loop_empty: "get_task_loop st [] ident i = Inr None"
  by (subst get_task_loop.simps) (auto simp: max_index_def)

text \<open>
  Claim C3 (scenario 1). The queue is empty, \<^verbatim>\<open>add_task(f, 0, ...)\<close> returns \<open>task\<close>, the
  callable \<open>f\<close> returns \<open>TASK_RESULT_DONE\<close> whenever it is called and changes nothing in the
  task manager, and the clock does not run backwards between the creation and the
  first tick. Then the task got the counter's new value as its id, and any positive
  number \<open>n\<close> of ticks runs without a fault and ends in a state where: the history has
  grown by exactly one call, the call of \<open>task\<close>; the queue is empty; the task is
  freed; \<^verbatim>\<open>has_task_by_id\<close> on its id gives 0, \<^verbatim>\<open>get_task_by_id\<close> on its id gives NULL,
  and \<^verbatim>\<open>has_task\<close> on its handle gives 0.
\<close>

theorem done_task_runs_once:
  assumes empty: "taskmgr_task_queue st = Some []"
    and ret: "\<forall>task args s. funcs E f task args s = (TASK_RESULT_DONE, s)"
    and clock: "clock E (reads st) \<le> clock E (Suc (reads st))"
    and add: "add_task E p f 0 va st = Inr (task, st1)"
    and n: "0 < n"
  shows "\<exists>t st2. live_task st1 task = Some t \<and> task_id t = taskmgr_next_task_id st1 \<and>
           drive_ticks E n st1 = Inr st2 \<and>
           invocations st2 = invocations st @ [(task, reads st + 2)] \<and>
           taskmgr_task_queue st2 = Some [] \<and>
           live_task st2 task = None \<and> task \<in> tasks_freed st2 \<and>
           has_task_by_id st2 (task_id t) = Inr 0 \<and>
           get_task_by_id st2 (task_id t) = Inr None \<and>
           has_task st2 task = Inr 0"
proof -
  from add_task_Inr[OF add] have p: "p = Some task"
    and nx: "taskmgr_next_task_id st \<noteq> INT_MAX" by simp_all
  let ?t = "\<lparr>task_id = taskmgr_next_task_id st + 1, func = f, args = frames st,
             delayable = 1, delay = 0, timestamp = clock E (reads st), mutex = False\<rparr>"
  have st1: "st1 = st\<lparr>frames := Suc (frames st),
                va_store := (va_store st)(frames st := None),
                taskmgr_next_task_id := taskmgr_next_task_id st + 1,
                reads := Suc (reads st),
                tasks := (tasks st)(task \<mapsto> ?t),
                tasks_freed := tasks_freed st - {task},
                taskmgr_task_queue := Some [task]\<rparr>"
    using add add_task_eq[OF nx empty, of E task f 0 va] p by simp
  have q1: "taskmgr_task_queue st1 = Some (task # [])" by (simp add: st1)
  have l1: "live_task st1 task = Some ?t" by (simp add: st1 live_task_def)
  have m1: "\<not> mutex ?t" by simp
  have due: "\<not> (delayable ?t \<noteq> 0 \<and> to_double (clock E (reads st1) - timestamp ?t) < delay ?t)"
    using clock to_double_nonneg[of "clock E (Suc (reads st)) - clock E (reads st)"]
    by (simp add: st1)
  have r: "reads st + 2 = (if delayable ?t \<noteq> 0 then Suc (reads st1) else reads st1)"
    by (simp add: st1)
  have call: "funcs E (func ?t) task (va_store st1 (args ?t))
                 (st1\<lparr>taskmgr_task_queue := Some [], reads := reads st + 2,
                     tasks := (tasks st1)(task \<mapsto> ?t\<lparr>mutex := True\<rparr>),
                     invocations := invocations st1 @ [(task, reads st + 2)]\<rparr>)
               = (TASK_RESULT_DONE,
                  st1\<lparr>taskmgr_task_queue := Some [], reads := reads st + 2,
                     tasks := (tasks st1)(task \<mapsto> ?t\<lparr>mutex := True\<rparr>),
                     invocations := invocations st1 @ [(task, reads st + 2)]\<rparr>)"
    using ret by simp
  let ?st2 = "st1\<lparr>reads := reads st + 2,
                  invocations := invocations st1 @ [(task, reads st + 2)],
                  taskmgr_task_queue := Some [],
                  tasks := (tasks st1)
                    (task \<mapsto> ?t\<lparr>task_id := -1, delayable := 0, delay := 0, timestamp := 0\<rparr>),
                  tasks_freed := insert task (tasks_freed st1)\<rparr>"
  have tick: "taskmgr_tick E st1 = Inr (0, ?st2)"
    by (subst tick_due_passive[OF q1 l1 m1 due r call]) simp
  obtain m where m: "n = Suc m" using n by (cases n) simp_all
  have "taskmgr_task_queue ?st2 = Some []" by simp
  then have rest: "drive_ticks E m ?st2 = Inr ?st2" by (rule drive_ticks_empty)
  have drive: "drive_ticks E n st1 = Inr ?st2"
    by (simp only: m drive_ticks.simps tick sum.case prod.case rest)
  have inv: "invocations ?st2 = invocations st @ [(task, reads st + 2)]"
    by (simp add: st1)
  have "live_task st1 task = Some ?t \<and> task_id ?t = taskmgr_next_task_id st1 \<and>
           drive_ticks E n st1 = Inr ?st2 \<and>
           invocations ?st2 = invocations st @ [(task, reads st + 2)] \<and>
           taskmgr_task_queue ?st2 = Some [] \<and>
           live_task ?st2 task = None \<and> task \<in> tasks_freed ?st2 \<and>
           has_task_by_id ?st2 (task_id ?t) = Inr 0 \<and>
           get_task_by_id ?st2 (task_id ?t) = Inr None \<and>
           has_task ?st2 task = Inr 0"
    using l1 drive inv
    by (simp add: live_task_def has_task_by_id_def get_task_by_id_def get_task_loop_empty
        has_task_def queue_get_index_def) (simp add: st1)
  then show ?thesis by blast
qed


theorem done_task_runs_once_witness:
  "\<exists>st2. drive_ticks (sample_env TASK_RESULT_DONE) 3 (one_task 0) = Inr st2 \<and>
         invocations st2 = [(7, 2)] \<and>
         taskmgr_task_queue st2 = Some [] \<and>
         live_task st2 7 = None \<and>
         has_task_by_id st2 0 = Inr 0 \<and>
         get_task_by_id st2 0 = Inr None"
proof -
  let ?E = "sample_env TASK_RESULT_DONE"
  let ?st = "snd (taskmgr_init taskmgr_start)"
  have e: "taskmgr_task_queue ?st = Some []"
    by (simp add: taskmgr_init_def taskmgr_start_def queue_init_def)
  have r: "\<forall>task args s. funcs ?E 0 task args s = (TASK_RESULT_DONE, s)"
    by (simp add: sample_env_def always_def)
  have c: "clock ?E (reads ?st) \<le> clock ?E (Suc (reads ?st))"
    by (simp add: sample_env_def)
  have n: "(0::nat) < 3" by simp
  from done_task_runs_once[OF e r c one_task_reached n]
  obtain t st2 where "live_task (one_task 0) 7 = Some t"
    "task_id t = taskmgr_next_task_id (one_task 0)"
    "drive_ticks ?E 3 (one_task 0) = Inr st2"
    "invocations st2 = invocations ?st @ [(7, reads ?st + 2)]"
    "taskmgr_task_queue st2 = Some []" "live_task st2 7 = None"
    "has_task_by_id st2 (task_id t) = Inr 0" "get_task_by_id st2 (task_id t) = Inr None"
    by blast
  then show ?thesis
    by (simp add: one_task_def taskmgr_start_def taskmgr_init_def)
qed












subsection \<open>What \<^verbatim>\<open>add_task\<close> stores\<close>

text \<open>
  Claim C4, at the call \<^verbatim>\<open>add_task(f, 0, 42)\<close> after \<^verbatim>\<open>taskmgr_init()\<close>, with \<^verbatim>\<open>malloc\<close>
  returning address 7. The call is the frame numbered 0. It returns the handle 7 of a
  task with the next id 0, \<open>delayable = 1\<close>, the timestamp read from the clock, at the
  back of the queue. The task's \<open>args\<close> field is 0: the address of the \<^verbatim>\<open>va_list\<close> in the
  frame of the call itself, not a copy of the arguments; in the state the call
  returns there is no \<^verbatim>\<open>va_list\<close> at that address any more. When \<^verbatim>\<open>malloc\<close> returns NULL the
  call does not report a failure: it writes through the null pointer.
\<close>

theorem add_task_stores_frame_address:
  "frames (snd (taskmgr_init taskmgr_start)) = 0 \<and>
   add_task E (Some 7) 0 0 [42] (snd (taskmgr_init taskmgr_start))
     = Inr (7, (one_task 0)\<lparr>tasks := [7 \<mapsto> \<lparr>task_id = 0, func = 0, args = 0, delayable = 1,
          delay = 0, timestamp = clock E 0, mutex = False\<rparr>]\<rparr>) \<and>
   va_store ((one_task 0)\<lparr>tasks := [7 \<mapsto> \<lparr>task_id = 0, func = 0, args = 0, delayable = 1,
          delay = 0, timestamp = clock E 0, mutex = False\<rparr>]\<rparr>) 0 = None \<and>
   add_task E None 0 0 [42] (snd (taskmgr_init taskmgr_start)) = Inl NullDeref"
  by (simp add: add_task_def taskmgr_init_def taskmgr_start_def one_task_def Let_def
      INT_MAX_def get_current_time_def store_task_def push_task_def
      queue_push_right_def queue_init_def)

subsection \<open>Ids over a process lifetime\<close>

lemma push_task_counters:
  "push_task st a = Inr st' \<Longrightarrow>
   taskmgr_next_task_id st' = taskmgr_next_task_id st \<and>
   taskmgr_next_scheduler_id st' = taskmgr_next_scheduler_id st"
  by (auto simp: push_task_def split: option.splits)

lemma free_task_counters:
  "free_task st a = Inr (rc, st') \<Longrightarrow>
   taskmgr_next_task_id st' = taskmgr_next_task_id st \<and>
   taskmgr_next_scheduler_id st' = taskmgr_next_scheduler_id st"
  by (auto simp: free_task_def store_task_def split: option.splits if_splits)

lemma process_result_counters:
  "process_result E result a st = Inr st' \<Longrightarrow>
   taskmgr_next_task_id st' = taskmgr_next_task_id st \<and>
   taskmgr_next_scheduler_id st' = taskmgr_next_scheduler_id st"
  by (cases result)
     (auto simp: process_result_def store_task_def get_current_time_def
        dest!: push_task_counters free_task_counters split: option.splits sum.splits)

lemma run_task_counters:
  assumes keep: "\<forall>fn task args s.
        taskmgr_next_task_id (snd (funcs E fn task args s)) = taskmgr_next_task_id s \<and>
        taskmgr_next_scheduler_id (snd (funcs E fn task args s)) = taskmgr_next_scheduler_id s"
    and run: "run_task E a st = Inr st'"
  shows "taskmgr_next_task_id st' = taskmgr_next_task_id st \<and>
         taskmgr_next_scheduler_id st' = taskmgr_next_scheduler_id st"
proof -
  from run obtain t where t: "live_task st a = Some t" and nm: "\<not> mutex t"
    by (auto simp: run_task_def split: option.splits if_splits)
  let ?in = "(store_task st a (t\<lparr>mutex := True\<rparr>))
               \<lparr>invocations := invocations st @ [(a, reads st)]\<rparr>"
  obtain result st3 where call:
    "funcs E (func t) a (va_store st (args t)) ?in = (result, st3)"
    by (cases "funcs E (func t) a (va_store st (args t)) ?in") blast
  from keep[rule_format, of "func t" a "va_store st (args t)" ?in] call
  have k3: "taskmgr_next_task_id st3 = taskmgr_next_task_id st"
           "taskmgr_next_scheduler_id st3 = taskmgr_next_scheduler_id st"
    by (simp_all add: store_task_def)
  from run t nm call obtain t' where
    pr: "process_result E result a (store_task st3 a (t'\<lparr>mutex := False\<rparr>)) = Inr st'"
    by (auto simp: run_task_def Let_def store_task_def split: option.splits if_splits)
  from process_result_counters[OF pr] k3 show ?thesis
    by (simp add: store_task_def)
qed

lemma tick_counters:
  assumes keep: "\<forall>fn task args s.
        taskmgr_next_task_id (snd (funcs E fn task args s)) = taskmgr_next_task_id s \<and>
        taskmgr_next_scheduler_id (snd (funcs E fn task args s)) = taskmgr_next_scheduler_id s"
    and tick: "taskmgr_tick E st = Inr (rc, st')"
  shows "taskmgr_next_task_id st' = taskmgr_next_task_id st \<and>
         taskmgr_next_scheduler_id st' = taskmgr_next_scheduler_id st"
  using tick
  by (auto simp: taskmgr_tick_def queue_pop_left_def Let_def get_current_time_def
      dest!: push_task_counters run_task_counters[OF keep]
      split: option.splits if_splits list.splits sum.splits)


lemma remove_task_counters:
  "remove_task st a = Inr (rc, st') \<Longrightarrow>
   taskmgr_next_task_id st' = taskmgr_next_task_id st \<and>
   taskmgr_next_scheduler_id st' = taskmgr_next_scheduler_id st"
  by (auto simp: remove_task_def Let_def dest!: free_task_counters
      split: option.splits if_splits prod.splits sum.splits)

lemma free_scheduler_counters:
  "free_scheduler st a = Inr (rc, st') \<Longrightarrow>
   taskmgr_next_task_id st' = taskmgr_next_task_id st \<and>
   taskmgr_next_scheduler_id st' = taskmgr_next_scheduler_id st"
  by (auto simp: free_scheduler_def split: option.splits)

lemma remove_scheduler_counters:
  "remove_scheduler st a = Inr (rc, st') \<Longrightarrow>
   taskmgr_next_task_id st' = taskmgr_next_task_id st \<and>
   taskmgr_next_scheduler_id st' = taskmgr_next_scheduler_id st"
  by (auto simp: remove_scheduler_def Let_def dest!: free_scheduler_counters
      split: option.splits if_splits prod.splits sum.splits)

lemma dropping_Inr:
  "dropping r = Inr (evs, st') \<Longrightarrow> evs = [] \<and> (\<exists>x. r = Inr (x, st'))"
  by (auto simp: dropping_def split: sum.splits)

lemma add_scheduler_ids:
  assumes "add_scheduler p attr_rc create_rc st = Inr (res, st')"
  shows "\<exists>s. p = Some s \<and>
           live_scheduler st' s = Some \<lparr>scheduler_id = taskmgr_next_scheduler_id st + 1\<rparr> \<and>
           taskmgr_next_scheduler_id st' = taskmgr_next_scheduler_id st + 1 \<and>
           taskmgr_next_task_id st' = taskmgr_next_task_id st"
  using assms
  by (auto simp: add_scheduler_def Let_def live_scheduler_def
      split: if_splits option.splits)

lemma add_task_ids:
  assumes "add_task E p f d va st = Inr (task, st')"
  shows "\<exists>t. live_task st' task = Some t \<and> task_id t = taskmgr_next_task_id st + 1 \<and>
           taskmgr_next_task_id st' = taskmgr_next_task_id st + 1 \<and>
           taskmgr_next_scheduler_id st' = taskmgr_next_scheduler_id st"
proof -
  from add_task_Inr[OF assms] obtain q where p: "p = Some task"
    and nx: "taskmgr_next_task_id st \<noteq> INT_MAX" and q: "taskmgr_task_queue st = Some q"
    by blast
  from assms add_task_eq[OF nx q, of E task f d va] p show ?thesis
    by (auto simp: live_task_def)
qed

lemma rising_append:
  "rising a b xs \<Longrightarrow> rising b c ys \<Longrightarrow> rising a c (xs @ ys)"
  by (fastforce simp: rising_def sorted_wrt_append)

lemma task_ids_append: "task_ids (xs @ ys) = task_ids xs @ task_ids ys"
  by (induction xs rule: task_ids.induct) simp_all

lemma scheduler_ids_append: "scheduler_ids (xs @ ys) = scheduler_ids xs @ scheduler_ids ys"
  by (induction xs rule: scheduler_ids.induct) simp_all

lemma exec_rising:
  assumes keep: "\<forall>fn task args s.
        taskmgr_next_task_id (snd (funcs E fn task args s)) = taskmgr_next_task_id s \<and>
        taskmgr_next_scheduler_id (snd (funcs E fn task args s)) = taskmgr_next_scheduler_id s"
    and ex: "exec E c st = Inr (evs, st')"
  shows "rising (taskmgr_next_task_id st) (taskmgr_next_task_id st') (task_ids evs) \<and>
         rising (taskmgr_next_scheduler_id st) (taskmgr_next_scheduler_id st')
           (scheduler_ids evs)"
proof (cases c)
  case Init
  with ex show ?thesis by (auto simp: taskmgr_init_def rising_def)
next
  case Shutdown
  with ex show ?thesis
    by (auto simp: taskmgr_shutdown_def rising_def dest!: dropping_Inr
        split: if_splits option.splits)
next
  case Tick
  with ex show ?thesis
    by (auto simp: rising_def dest!: dropping_Inr tick_counters[OF keep])
next
  case (AddTask p f d va)
  with ex obtain task where a: "add_task E p f d va st = Inr (task, st')"
    by (auto split: sum.splits option.splits)
  from add_task_ids[OF a] a ex AddTask show ?thesis
    by (auto simp: rising_def)
next
  case (RemoveTask a)
  with ex show ?thesis
    by (auto simp: rising_def dest!: dropping_Inr remove_task_counters)
next
  case (RemoveTaskById i)
  with ex show ?thesis
    by (auto simp: rising_def remove_task_by_id_def dest!: dropping_Inr remove_task_counters
        split: sum.splits option.splits)
next
  case (FreeTask a)
  with ex show ?thesis
    by (auto simp: rising_def dest!: dropping_Inr free_task_counters)
next
  case (FreeTaskById i)
  with ex show ?thesis
    by (auto simp: rising_def free_task_by_id_def dest!: dropping_Inr free_task_counters
        split: sum.splits option.splits)
next
  case (AddScheduler p attr_rc create_rc)
  with ex obtain res where a: "add_scheduler p attr_rc create_rc st = Inr (res, st')"
    by (auto split: sum.splits option.splits)
  from add_scheduler_ids[OF a] a ex AddScheduler show ?thesis
    by (auto simp: rising_def)
next
  case (RemoveScheduler a)
  with ex show ?thesis
    by (auto simp: rising_def dest!: dropping_Inr remove_scheduler_counters)
next
  case (RemoveSchedulerById i)
  with ex show ?thesis
    by (auto simp: rising_def remove_scheduler_by_id_def
        dest!: dropping_Inr remove_scheduler_counters split: sum.splits option.splits)
next
  case (FreeScheduler a)
  with ex show ?thesis
    by (auto simp: rising_def dest!: dropping_Inr free_scheduler_counters)
next
  case (FreeSchedulerById i)
  with ex show ?thesis
    by (auto simp: rising_def free_scheduler_by_id_def
        dest!: dropping_Inr free_scheduler_counters split: sum.splits option.splits)
qed

lemma exec_all_rising:
  assumes keep: "\<forall>fn task args s.
        taskmgr_next_task_id (snd (funcs E fn task args s)) = taskmgr_next_task_id s \<and>
        taskmgr_next_scheduler_id (snd (funcs E fn task args s)) = taskmgr_next_scheduler_id s"
  shows "exec_all E cs st = Inr (evs, st') \<Longrightarrow>
         rising (taskmgr_next_task_id st) (taskmgr_next_task_id st') (task_ids evs) \<and>
         rising (taskmgr_next_scheduler_id st) (taskmgr_next_scheduler_id st')
           (scheduler_ids evs)"
proof (induction cs arbitrary: st evs)
  case Nil
  then show ?case by (simp add: rising_def)
next
  case (Cons c cs)
  from Cons.prems obtain e1 s1 e2 where x1: "exec E c st = Inr (e1, s1)"
    and x2: "exec_all E cs s1 = Inr (e2, st')" and evs: "evs = e1 @ e2"
    by (auto split: sum.splits)
  from exec_rising[OF keep x1] Cons.IH[OF x2] show ?case
    by (auto simp: evs task_ids_append scheduler_ids_append intro: rising_append)
qed


text \<open>
  Claim C8, as amended. Take any history of calls that runs without a fault (so neither
  counter is incremented at \<open>INT_MAX\<close>), in an environment whose callables leave the two
  counters alone. The task ids handed out, in the order of the calls, are strictly
  increasing, and so are the scheduler ids; each lies above the value its counter had
  before the history and at most at the value it has after it, so each is greater
  than every id handed out earlier and none is handed out twice. The id is written
  when the object is created (\<open>exec\<close> reads it from the new object). \<^verbatim>\<open>free_task\<close> and
  \<^verbatim>\<open>free_scheduler\<close>, through which every destruction goes, leave \<open>-1\<close> in the id field
  of the object they free.
\<close>

theorem ids_strictly_increasing:
  assumes keep: "\<forall>fn task args s.
        taskmgr_next_task_id (snd (funcs E fn task args s)) = taskmgr_next_task_id s \<and>
        taskmgr_next_scheduler_id (snd (funcs E fn task args s)) = taskmgr_next_scheduler_id s"
    and run: "exec_all E cs st0 = Inr (evs, st)"
    and ft: "free_task s1 task = Inr (rc1, s1')"
    and fs: "free_scheduler s2 sched = Inr (rc2, s2')"
  shows "sorted_wrt (<) (task_ids evs) \<and>
         sorted_wrt (<) (scheduler_ids evs) \<and>
         (\<forall>i \<in> set (task_ids evs).
            taskmgr_next_task_id st0 < i \<and> i \<le> taskmgr_next_task_id st) \<and>
         (\<forall>i \<in> set (scheduler_ids evs).
            taskmgr_next_scheduler_id st0 < i \<and> i \<le> taskmgr_next_scheduler_id st) \<and>
         map_option task_id (tasks s1' task) = Some (- 1) \<and> task \<in> tasks_freed s1' \<and>
         map_option scheduler_id (schedulers s2' sched) = Some (- 1) \<and>
         sched \<in> schedulers_freed s2'"
proof -
  from exec_all_rising[OF keep run]
  have "sorted_wrt (<) (task_ids evs) \<and>
         sorted_wrt (<) (scheduler_ids evs) \<and>
         (\<forall>i \<in> set (task_ids evs).
            taskmgr_next_task_id st0 < i \<and> i \<le> taskmgr_next_task_id st) \<and>
         (\<forall>i \<in> set (scheduler_ids evs).
            taskmgr_next_scheduler_id st0 < i \<and> i \<le> taskmgr_next_scheduler_id st)"
    by (simp add: rising_def)
  moreover from ft have "map_option task_id (tasks s1' task) = Some (- 1) \<and>
      task \<in> tasks_freed s1'"
    by (auto simp: free_task_def store_task_def split: option.splits if_splits)
  moreover from fs have "map_option scheduler_id (schedulers s2' sched) = Some (- 1) \<and>
      sched \<in> schedulers_freed s2'"
    by (auto simp: free_scheduler_def split: option.splits)
  ultimately show ?thesis by simp
qed

lemma sample_history:
  "\<exists>st. exec_all (sample_env TASK_RESULT_CONT)
          [Init, AddTask (Some 7) 0 0 [42], AddScheduler (Some 3) 0 0, Tick,
           AddTask (Some 8) 0 0 [], RemoveTask 7, AddTask (Some 7) 0 1 []] taskmgr_start
        = Inr ([TaskId 0, SchedulerId 0, TaskId 1, TaskId 2], st)"
  by (simp add: taskmgr_init_def taskmgr_start_def add_task_def add_scheduler_def
      dropping_def taskmgr_tick_def run_task_def process_result_def remove_task_def
      free_task_def queue_remove_object_def queue_get_index_def
      queue_get_empty_def queue_pop_left_def queue_push_right_def push_task_def queue_init_def
      get_current_time_def store_task_def live_task_def live_scheduler_def Let_def
      INT_MAX_def sample_env_def always_def)


theorem ids_strictly_increasing_witness:
  "\<exists>st. exec_all (sample_env TASK_RESULT_CONT)
          [Init, AddTask (Some 7) 0 0 [42], AddScheduler (Some 3) 0 0, Tick,
           AddTask (Some 8) 0 0 [], RemoveTask 7, AddTask (Some 7) 0 1 []] taskmgr_start
        = Inr ([TaskId 0, SchedulerId 0, TaskId 1, TaskId 2], st) \<and>
      sorted_wrt (<) [0, 1, 2 :: int] \<and>
      free_task (one_task 0) 7 = Inr (0, freed_in_queue 0) \<and>
      map_option task_id (tasks (freed_in_queue 0) 7) = Some (- 1) \<and>
      free_scheduler (taskmgr_start\<lparr>schedulers := [3 \<mapsto> \<lparr>scheduler_id = 0\<rparr>]\<rparr>) 3
        = Inr (0, taskmgr_start\<lparr>schedulers := [3 \<mapsto> \<lparr>scheduler_id = - 1\<rparr>],
                               schedulers_freed := {3}\<rparr>)"
proof -
  let ?E = "sample_env TASK_RESULT_CONT"
  have keep: "\<forall>fn task args s.
        taskmgr_next_task_id (snd (funcs ?E fn task args s)) = taskmgr_next_task_id s \<and>
        taskmgr_next_scheduler_id (snd (funcs ?E fn task args s)) = taskmgr_next_scheduler_id s"
    by (simp add: sample_env_def always_def)
  from sample_history obtain st where run: "exec_all ?E
          [Init, AddTask (Some 7) 0 0 [42], AddScheduler (Some 3) 0 0, Tick,
           AddTask (Some 8) 0 0 [], RemoveTask 7, AddTask (Some 7) 0 1 []] taskmgr_start
        = Inr ([TaskId 0, SchedulerId 0, TaskId 1, TaskId 2], st)" ..
  have ft: "free_task (one_task 0) 7 = Inr (0, freed_in_queue 0)"
    by (simp add: free_task_def live_task_def store_task_def one_task_def freed_in_queue_def
        taskmgr_start_def)
  have fs: "free_scheduler (taskmgr_start\<lparr>schedulers := [3 \<mapsto> \<lparr>scheduler_id = 0\<rparr>]\<rparr>) 3
        = Inr (0, taskmgr_start\<lparr>schedulers := [3 \<mapsto> \<lparr>scheduler_id = - 1\<rparr>],
                               schedulers_freed := {3}\<rparr>)"
    by (simp add: free_scheduler_def live_scheduler_def taskmgr_start_def)
  from ids_strictly_increasing[OF keep run ft fs] run ft fs show ?thesis
    by auto
qed

text \<open>
  Claim C8 as stated fails when a counter has reached \<open>INT_MAX\<close>: the increment in
  \<^verbatim>\<open>add_task\<close>, and likewise in \<^verbatim>\<open>add_scheduler\<close>, overflows a C \<^verbatim>\<open>int\<close>, so the call has
  no defined result and assigns no greater id. Lemma \<open>overflow_reachable\<close> below shows
  that calls of the public functions lead to such a state.
\<close>

theorem id_counter_overflow:
  "add_task (sample_env TASK_RESULT_DONE) (Some 8) 0 0 []
     ((one_task 0)\<lparr>taskmgr_next_task_id := INT_MAX\<rparr>) = Inl SignedOverflow \<and>
   add_scheduler (Some 3) 0 0
     ((one_task 0)\<lparr>taskmgr_next_scheduler_id := INT_MAX\<rparr>) = Inl SignedOverflow"
  by (simp add: add_task_def add_scheduler_def Let_def)

lemma exec_all_append:
  "exec_all E (cs @ ds) st =
     (case exec_all E cs st of
        Inl e \<Rightarrow> Inl e
      | Inr (e1, s1) \<Rightarrow>
          (case exec_all E ds s1 of
             Inl e \<Rightarrow> Inl e
           | Inr (e2, s2) \<Rightarrow> Inr (e1 @ e2, s2)))"
  by (induction cs arbitrary: st) (auto split: sum.splits)

lemma add_remove_cycle:
  assumes "taskmgr_task_queue st = Some [7]" and "taskmgr_next_task_id st \<noteq> INT_MAX"
  shows "\<exists>evs st'. exec_all E [AddTask (Some 8) 0 0 [], RemoveTask 8] st = Inr (evs, st') \<and>
           taskmgr_task_queue st' = Some [7] \<and>
           taskmgr_next_task_id st' = taskmgr_next_task_id st + 1"
  using assms
  by (simp add: add_task_eq live_task_def dropping_def remove_task_def
      queue_remove_object_def queue_get_index_def free_task_def store_task_def)

lemma counter_reachable:
  "int n \<le> INT_MAX \<Longrightarrow>
   \<exists>evs st. exec_all E (concat (replicate n [AddTask (Some 8) 0 0 [], RemoveTask 8]))
               (one_task 0) = Inr (evs, st) \<and>
            taskmgr_task_queue st = Some [7] \<and> taskmgr_next_task_id st = int n"
proof (induction n)
  case 0
  then show ?case by (simp add: one_task_def taskmgr_start_def)
next
  case (Suc n)
  then obtain evs st where
    run: "exec_all E (concat (replicate n [AddTask (Some 8) 0 0 [], RemoveTask 8]))
            (one_task 0) = Inr (evs, st)"
    and q: "taskmgr_task_queue st = Some [7]" and c: "taskmgr_next_task_id st = int n"
    by auto
  from Suc.prems c have "taskmgr_next_task_id st \<noteq> INT_MAX" by simp
  from add_remove_cycle[OF q this, of E] obtain evs' st' where
    cyc: "exec_all E [AddTask (Some 8) 0 0 [], RemoveTask 8] st = Inr (evs', st')"
    and q': "taskmgr_task_queue st' = Some [7]"
    and c': "taskmgr_next_task_id st' = taskmgr_next_task_id st + 1"
    by blast
  have "concat (replicate (Suc n) [AddTask (Some 8) 0 0 [], RemoveTask 8]) =
        concat (replicate n [AddTask (Some 8) 0 0 [], RemoveTask 8] @
                [ [AddTask (Some 8) 0 0 [], RemoveTask 8] ])"
    by (simp only: replicate_append_same replicate_Suc)
  then have "concat (replicate (Suc n) [AddTask (Some 8) 0 0 [], RemoveTask 8]) =
        concat (replicate n [AddTask (Some 8) 0 0 [], RemoveTask 8]) @
        [AddTask (Some 8) 0 0 [], RemoveTask 8]"
    by simp
  then have "exec_all E (concat (replicate (Suc n) [AddTask (Some 8) 0 0 [], RemoveTask 8]))
      (one_task 0) = Inr (evs @ evs', st')"
    by (simp only: exec_all_append run cyc sum.case prod.case)
  with q' c' c show ?case by auto
qed

lemma overflow_reachable:
  "\<exists>cs evs st. exec_all E cs (one_task 0) = Inr (evs, st) \<and>
     add_task E (Some 8) 0 0 [] st = Inl SignedOverflow"
proof -
  have "int (nat INT_MAX) \<le> INT_MAX" by (simp add: INT_MAX_def)
  from counter_reachable[OF this, of E] obtain evs st where
    "exec_all E (concat (replicate (nat INT_MAX) [AddTask (Some 8) 0 0 [], RemoveTask 8]))
       (one_task 0) = Inr (evs, st)"
    and "taskmgr_next_task_id st = INT_MAX"
    by (auto simp: INT_MAX_def)
  then show ?thesis by (auto simp: add_task_def Let_def)
qed

subsection \<open>Two schedulers\<close>

lemma two_tasks_reached:
  "add_task (sample_env r) (Some 8) 0 0 [] (one_task 0) = Inr (8, two_tasks)"
  by (simp add: add_task_def one_task_def two_tasks_def taskmgr_start_def Let_def
      INT_MAX_def get_current_time_def sample_env_def store_task_def push_task_def
      queue_push_right_def fun_upd_twist)

lemma two_schedulers_reached:
  "\<exists>s1. add_scheduler (Some 3) 0 0 two_tasks = Inr (Some 3, s1) \<and>
         taskmgr_scheduler_run E 0 s1 = Inr (Looping (s1\<lparr>taskmgr_running := 1\<rparr>)) \<and>
         add_scheduler (Some 4) 0 0 (s1\<lparr>taskmgr_running := 1\<rparr>) = Inr (Some 4, two_schedulers)"
  by (simp add: add_scheduler_def two_tasks_def two_schedulers_def taskmgr_start_def Let_def
      INT_MAX_def queue_push_right_def taskmgr_scheduler_run_def taskmgr_run_def)

text \<open>
  Claim C6 as stated fails. In the state \<open>two_schedulers\<close> two schedulers created by
  \<^verbatim>\<open>add_scheduler\<close> exist at the same time and two tasks wait in the queue; the thread of
  the first has set the running flag. When the thread of the second scheduler runs
  its body, \<^verbatim>\<open>taskmgr_run\<close> sees the flag and returns: the thread ends without a tick,
  the state is as it was, both tasks are still in the queue. It does not drain the
  queue.
\<close>

theorem second_scheduler_idle:
  "threads two_schedulers = [3, 4] \<and>
   taskmgr_task_queue two_schedulers = Some [7, 8] \<and>
   taskmgr_scheduler_run (sample_env TASK_RESULT_DONE) 100 two_schedulers
     = Inr (Returned two_schedulers)"
  by (simp add: two_schedulers_def two_tasks_def taskmgr_start_def
      taskmgr_scheduler_run_def taskmgr_run_def)

lemma tick_done_step:
  assumes q: "taskmgr_task_queue st = Some (a # rest)"
    and live: "live_task st a = Some t" "\<not> mutex t"
    and due: "\<forall>k\<ge>r0. delay t \<le> to_double (clock E k - timestamp t)"
    and r0: "r0 \<le> reads st"
    and ret: "\<forall>va s. funcs E (func t) a va s = (TASK_RESULT_DONE, s)"
  shows "\<exists>r st'. taskmgr_tick E st = Inr (0, st') \<and>
           taskmgr_task_queue st' = Some rest \<and>
           invocations st' = invocations st @ [(a, r)] \<and>
           taskmgr_running st' = taskmgr_running st \<and>
           tasks_freed st' = insert a (tasks_freed st) \<and>
           r0 \<le> reads st' \<and>
           (\<forall>b. b \<noteq> a \<longrightarrow> live_task st' b = live_task st b)"
proof -
  define r where "r = (if delayable t \<noteq> 0 then Suc (reads st) else reads st)"
  from due r0 have "delay t \<le> to_double (clock E (reads st) - timestamp t)" by blast
  then have d: "\<not> (delayable t \<noteq> 0 \<and> to_double (clock E (reads st) - timestamp t) < delay t)"
    by simp
  have call: "funcs E (func t) a (va_store st (args t))
                 (st\<lparr>taskmgr_task_queue := Some rest, reads := r,
                     tasks := (tasks st)(a \<mapsto> t\<lparr>mutex := True\<rparr>),
                     invocations := invocations st @ [(a, r)]\<rparr>)
               = (TASK_RESULT_DONE,
                  st\<lparr>taskmgr_task_queue := Some rest, reads := r,
                     tasks := (tasks st)(a \<mapsto> t\<lparr>mutex := True\<rparr>),
                     invocations := invocations st @ [(a, r)]\<rparr>)"
    using ret by simp
  from tick_due_passive[OF q live d r_def call] r0 show ?thesis
    by (auto simp: live_task_def r_def)
qed

lemma run_loop_drains:
  assumes due: "\<forall>a \<in> set q. \<exists>t. live_task st a = Some t \<and> \<not> mutex t \<and>
                  (\<forall>k\<ge>r0. delay t \<le> to_double (clock E k - timestamp t)) \<and>
                  (\<forall>va s. funcs E (func t) a va s = (TASK_RESULT_DONE, s))"
    and r0: "r0 \<le> reads st"
    and run: "taskmgr_running st \<noteq> 0"
    and q: "taskmgr_task_queue st = Some q" and d: "distinct q"
  shows "\<exists>st'. run_loop E n st = Inr (Looping st') \<and>
           taskmgr_running st' = taskmgr_running st \<and>
           map fst (invocations st') = map fst (invocations st) @ take n q \<and>
           taskmgr_task_queue st' = Some (drop n q) \<and>
           tasks_freed st' = tasks_freed st \<union> set (take n q)"
  using assms
proof (induction n arbitrary: st q)
  case 0
  then show ?case by simp
next
  case (Suc n)
  show ?case
  proof (cases q)
    case Nil
    with Suc.prems have e: "taskmgr_task_queue st = Some []" by simp
    have t: "taskmgr_tick E st = Inr (0, st)" by (rule tick_empty[OF e])
    from Suc.IH[of "[]" st] Suc.prems(2,3) e
    obtain st' where "run_loop E n st = Inr (Looping st')"
      "taskmgr_running st' = taskmgr_running st"
      "map fst (invocations st') = map fst (invocations st)"
      "taskmgr_task_queue st' = Some []"
      "tasks_freed st' = tasks_freed st"
      by auto
    with Suc.prems(3) t Nil show ?thesis by simp
  next
    case (Cons a rest)
    with Suc.prems have qa: "taskmgr_task_queue st = Some (a # rest)"
      and nin: "a \<notin> set rest" and dr: "distinct rest" by simp_all
    from Suc.prems(1) Cons obtain t where t: "live_task st a = Some t" "\<not> mutex t"
      "\<forall>k\<ge>r0. delay t \<le> to_double (clock E k - timestamp t)"
      and ret: "\<forall>va s. funcs E (func t) a va s = (TASK_RESULT_DONE, s)"
      by auto
    from tick_done_step[OF qa t Suc.prems(2) ret] obtain r s1 where
      tick: "taskmgr_tick E st = Inr (0, s1)"
      and q1: "taskmgr_task_queue s1 = Some rest"
      and i1: "invocations s1 = invocations st @ [(a, r)]"
      and r1: "taskmgr_running s1 = taskmgr_running st"
      and f1: "tasks_freed s1 = insert a (tasks_freed st)"
      and rd: "r0 \<le> reads s1"
      and l1: "\<forall>b. b \<noteq> a \<longrightarrow> live_task s1 b = live_task st b"
      by blast
    have due1: "\<forall>b \<in> set rest. \<exists>t. live_task s1 b = Some t \<and> \<not> mutex t \<and>
                  (\<forall>k\<ge>r0. delay t \<le> to_double (clock E k - timestamp t)) \<and>
                  (\<forall>va s. funcs E (func t) b va s = (TASK_RESULT_DONE, s))"
      using Suc.prems(1) Cons nin l1 by auto
    from r1 Suc.prems(3) have run1: "taskmgr_running s1 \<noteq> 0" by simp
    from Suc.IH[OF due1 rd run1 q1 dr] obtain st' where
      loop: "run_loop E n s1 = Inr (Looping st')"
      and r': "taskmgr_running st' = taskmgr_running s1"
      and i': "map fst (invocations st') = map fst (invocations s1) @ take n rest"
      and q': "taskmgr_task_queue st' = Some (drop n rest)"
      and f': "tasks_freed st' = tasks_freed s1 \<union> set (take n rest)"
      by blast
    from Suc.prems(3) tick loop have "run_loop E (Suc n) st = Inr (Looping st')" by simp
    with r' r1 i' i1 q' f' f1 Cons show ?thesis by simp
  qed
qed

lemma add_scheduler_running:
  "add_scheduler p attr_rc create_rc st = Inr (res, st') \<Longrightarrow>
   taskmgr_running st' = taskmgr_running st"
  by (auto simp: add_scheduler_def Let_def split: if_splits option.splits)

text \<open>
  Claim C6, as amended. A scheduler thread that enters \<^verbatim>\<open>taskmgr_run\<close> while the running
  flag is clear sets the flag and drains the queue alone. The queue holds distinct
  tasks whose guards are free, which are due at every reading of the clock from now
  on (by the dispatcher's check, the delay being at most the double difference of
  the reading and the timestamp; or, the delay being a double, by the timestamp plus
  the delay being at most the reading, which implies the former since rounding is
  monotone, lemma \<open>exact_due\<close>), and whose callables return \<open>TASK_RESULT_DONE\<close> and change nothing in the task manager
  (scenario 3, for any number of tasks). After \<open>n\<close> iterations the loop is still
  running, the first \<open>n\<close> tasks of the queue have been called exactly once each, in
  queue order, and freed, and the others are still queued in their order: no
  duplicate and no dropped execution. In the state reached, the flag is set, so a
  thread that runs the scheduler body there returns at once without a tick, and so
  does the thread of any scheduler that \<^verbatim>\<open>add_scheduler\<close> creates there. Nothing is said
  about two threads that test the flag before either has set it.
\<close>

theorem single_run_loop_drains:
  assumes "taskmgr_running st = 0"
    and "taskmgr_task_queue st = Some q"
    and "distinct q"
    and "\<forall>a \<in> set q. \<exists>t. live_task st a = Some t \<and> \<not> mutex t \<and>
            ((\<forall>k\<ge>reads st. delay t \<le> to_double (clock E k - timestamp t)) \<or>
             to_double (delay t) = delay t \<and>
             (\<forall>k\<ge>reads st. timestamp t + delay t \<le> clock E k)) \<and>
            (\<forall>va s. funcs E (func t) a va s = (TASK_RESULT_DONE, s))"
  shows "\<exists>st'. taskmgr_scheduler_run E n st = Inr (Looping st') \<and>
           taskmgr_running st' = 1 \<and>
           map fst (invocations st') = map fst (invocations st) @ take n q \<and>
           taskmgr_task_queue st' = Some (drop n q) \<and>
           tasks_freed st' = tasks_freed st \<union> set (take n q) \<and>
           (\<forall>m. taskmgr_scheduler_run E m st' = Inr (Returned st')) \<and>
           (\<forall>p s st'' m. add_scheduler p 0 0 st' = Inr (Some s, st'') \<longrightarrow>
                taskmgr_scheduler_run E m st'' = Inr (Returned st''))"
proof -
  let ?s = "st\<lparr>taskmgr_running := 1\<rparr>"
  have due: "\<forall>a \<in> set q. \<exists>t. live_task ?s a = Some t \<and> \<not> mutex t \<and>
            (\<forall>k\<ge>reads st. delay t \<le> to_double (clock E k - timestamp t)) \<and>
            (\<forall>va s. funcs E (func t) a va s = (TASK_RESULT_DONE, s))"
  proof
    fix a assume "a \<in> set q"
    with assms(4) obtain t where t: "live_task st a = Some t" "\<not> mutex t"
      "(\<forall>k\<ge>reads st. delay t \<le> to_double (clock E k - timestamp t)) \<or>
       to_double (delay t) = delay t \<and> (\<forall>k\<ge>reads st. timestamp t + delay t \<le> clock E k)"
      "\<forall>va s. funcs E (func t) a va s = (TASK_RESULT_DONE, s)"
      by blast
    from t(3) have "\<forall>k\<ge>reads st. delay t \<le> to_double (clock E k - timestamp t)"
      using exact_due by blast
    with t(1,2,4) show "\<exists>t. live_task ?s a = Some t \<and> \<not> mutex t \<and>
            (\<forall>k\<ge>reads st. delay t \<le> to_double (clock E k - timestamp t)) \<and>
            (\<forall>va s. funcs E (func t) a va s = (TASK_RESULT_DONE, s))"
      by simp
  qed
  have r0: "reads st \<le> reads ?s" by simp
  have run: "taskmgr_running ?s \<noteq> 0" by simp
  have q: "taskmgr_task_queue ?s = Some q" using assms(2) by simp
  from run_loop_drains[OF due r0 run q assms(3), of n] obtain st' where
    loop: "run_loop E n ?s = Inr (Looping st')"
    and r: "taskmgr_running st' = 1"
    and rest: "map fst (invocations st') = map fst (invocations st) @ take n q"
      "taskmgr_task_queue st' = Some (drop n q)"
      "tasks_freed st' = tasks_freed st \<union> set (take n q)"
    by auto
  from loop assms(1) have "taskmgr_scheduler_run E n st = Inr (Looping st')"
    by (simp add: taskmgr_scheduler_run_def taskmgr_run_def)
  moreover from r have "\<forall>m. taskmgr_scheduler_run E m st' = Inr (Returned st')"
    by (simp add: taskmgr_scheduler_run_def taskmgr_run_def)
  moreover have "\<forall>p s st'' m. add_scheduler p 0 0 st' = Inr (Some s, st'') \<longrightarrow>
                taskmgr_scheduler_run E m st'' = Inr (Returned st'')"
    using r by (auto simp: taskmgr_scheduler_run_def taskmgr_run_def
        dest!: add_scheduler_running)
  ultimately show ?thesis using r rest by blast
qed

lemma sample_drain:
  "taskmgr_scheduler_run (sample_env TASK_RESULT_DONE) 5 two_tasks =
     Inr (Looping (two_tasks
       \<lparr>taskmgr_running := 1, taskmgr_task_queue := Some [], reads := 4,
        invocations := [(7, 3), (8, 4)],
        tasks := [7 \<mapsto> \<lparr>task_id = - 1, func = 0, args = 0, delayable = 0, delay = 0,
                        timestamp = 0, mutex = False\<rparr>,
                  8 \<mapsto> \<lparr>task_id = - 1, func = 0, args = 1, delayable = 0, delay = 0,
                        timestamp = 0, mutex = False\<rparr>],
        tasks_freed := {7, 8}\<rparr>))"
  by (simp add: eval_nat_numeral taskmgr_scheduler_run_def taskmgr_run_def
      taskmgr_tick_def run_task_def process_result_def free_task_def
      queue_get_empty_def queue_pop_left_def
      get_current_time_def store_task_def live_task_def Let_def
      two_tasks_def taskmgr_start_def sample_env_def always_def insert_commute)

theorem single_run_loop_drains_witness:
  "\<exists>st'. taskmgr_scheduler_run (sample_env TASK_RESULT_DONE) 5 two_tasks = Inr (Looping st') \<and>
         taskmgr_running st' = 1 \<and>
         map fst (invocations st') = [7, 8] \<and>
         taskmgr_task_queue st' = Some [] \<and>
         tasks_freed st' = {7, 8} \<and>
         taskmgr_scheduler_run (sample_env TASK_RESULT_DONE) 5 st' = Inr (Returned st') \<and>
         add_scheduler (Some 4) 0 0 st'
           = Inr (Some 4, st'\<lparr>taskmgr_next_scheduler_id := 0,
                    schedulers := [4 \<mapsto> \<lparr>scheduler_id = 0\<rparr>], threads := [4],
                    taskmgr_scheduler_queue := Some [4]\<rparr>) \<and>
         taskmgr_scheduler_run (sample_env TASK_RESULT_DONE) 5
           (st'\<lparr>taskmgr_next_scheduler_id := 0,
                    schedulers := [4 \<mapsto> \<lparr>scheduler_id = 0\<rparr>], threads := [4],
                    taskmgr_scheduler_queue := Some [4]\<rparr>)
           = Inr (Returned (st'\<lparr>taskmgr_next_scheduler_id := 0,
                    schedulers := [4 \<mapsto> \<lparr>scheduler_id = 0\<rparr>], threads := [4],
                    taskmgr_scheduler_queue := Some [4]\<rparr>))"
proof -
  let ?E = "sample_env TASK_RESULT_DONE"
  have a: "taskmgr_running two_tasks = 0" by (simp add: two_tasks_def taskmgr_start_def)
  have b: "taskmgr_task_queue two_tasks = Some [7, 8]" by (simp add: two_tasks_def)
  have c: "distinct [7, 8 :: nat]" by simp
  have d: "\<forall>a \<in> set [7, 8]. \<exists>t. live_task two_tasks a = Some t \<and> \<not> mutex t \<and>
            ((\<forall>k\<ge>reads two_tasks. delay t \<le> to_double (clock ?E k - timestamp t)) \<or>
             to_double (delay t) = delay t \<and>
             (\<forall>k\<ge>reads two_tasks. timestamp t + delay t \<le> clock ?E k)) \<and>
            (\<forall>va s. funcs ?E (func t) a va s = (TASK_RESULT_DONE, s))"
    by (simp add: two_tasks_def taskmgr_start_def live_task_def sample_env_def always_def)
  from single_run_loop_drains[OF a b c d, of 5] obtain st' where
    st': "taskmgr_scheduler_run ?E 5 two_tasks = Inr (Looping st')"
    and p: "taskmgr_running st' = 1"
      "map fst (invocations st') = map fst (invocations two_tasks) @ take 5 [7, 8]"
      "taskmgr_task_queue st' = Some (drop 5 [7, 8])"
      "tasks_freed st' = tasks_freed two_tasks \<union> set (take 5 [7, 8])"
      "\<forall>m. taskmgr_scheduler_run ?E m st' = Inr (Returned st')"
    and s: "\<forall>p s st'' m. add_scheduler p 0 0 st' = Inr (Some s, st'') \<longrightarrow>
                taskmgr_scheduler_run ?E m st'' = Inr (Returned st'')"
    by blast
  from st' sample_drain have eq: "st' = two_tasks
       \<lparr>taskmgr_running := 1, taskmgr_task_queue := Some [], reads := 4,
        invocations := [(7, 3), (8, 4)],
        tasks := [7 \<mapsto> \<lparr>task_id = - 1, func = 0, args = 0, delayable = 0, delay = 0,
                        timestamp = 0, mutex = False\<rparr>,
                  8 \<mapsto> \<lparr>task_id = - 1, func = 0, args = 1, delayable = 0, delay = 0,
                        timestamp = 0, mutex = False\<rparr>],
        tasks_freed := {7, 8}\<rparr>"
    by simp
  have add: "add_scheduler (Some 4) 0 0 st'
           = Inr (Some 4, st'\<lparr>taskmgr_next_scheduler_id := 0,
                    schedulers := [4 \<mapsto> \<lparr>scheduler_id = 0\<rparr>], threads := [4],
                    taskmgr_scheduler_queue := Some [4]\<rparr>)"
    by (simp add: eq add_scheduler_def two_tasks_def taskmgr_start_def Let_def INT_MAX_def
        queue_push_right_def)
  from s add have "taskmgr_scheduler_run ?E 5
           (st'\<lparr>taskmgr_next_scheduler_id := 0,
                    schedulers := [4 \<mapsto> \<lparr>scheduler_id = 0\<rparr>], threads := [4],
                    taskmgr_scheduler_queue := Some [4]\<rparr>)
           = Inr (Returned (st'\<lparr>taskmgr_next_scheduler_id := 0,
                    schedulers := [4 \<mapsto> \<lparr>scheduler_id = 0\<rparr>], threads := [4],
                    taskmgr_scheduler_queue := Some [4]\<rparr>))"
    by blast
  with st' p add show ?thesis
    by (auto simp: two_tasks_def taskmgr_start_def)
qed

subsection \<open>Destroyed tasks\<close>





lemma queued_store [simp]: "queued (store_task st a t) = queued st"
  by (simp add: queued_def store_task_def)













lemma get_task_loop_finds:
  "\<forall>a \<in> set q. \<exists>t. live_task st a = Some t \<Longrightarrow>
   \<forall>a \<in> set q. \<forall>t. live_task st a = Some t \<longrightarrow> task_id t = k \<longrightarrow> a = task \<Longrightarrow>
   live_task st task = Some tv \<Longrightarrow> task_id tv = k \<Longrightarrow>
   0 \<le> i \<Longrightarrow> task \<in> set (drop (nat i) q) \<Longrightarrow>
   get_task_loop st q k i = Inr (Some task)"
proof (induction st q k i rule: get_task_loop.induct)
  case (1 st q k i)
  note live = "1.prems"(1) and uniq = "1.prems"(2) and tv = "1.prems"(3,4)
  from "1.prems"(5,6) have lt: "nat i < length q" by (cases "nat i < length q") auto
  with "1.prems"(5) have c: "0 \<le> i \<and> i \<le> max_index q"
    by (simp add: max_index_def nat_less_iff)
  from lt have mem: "queue_get q i \<in> set q" by (simp add: queue_get_def)
  with live obtain t where t: "live_task st (queue_get q i) = Some t" by blast
  show ?case
  proof (cases "task_id t = k")
    case True
    with uniq mem t have "queue_get q i = task" by blast
    with c t True show ?thesis by (subst get_task_loop.simps) simp
  next
    case False
    with t tv have ne: "queue_get q i \<noteq> task" by auto
    from lt have "drop (nat i) q = q ! nat i # drop (Suc (nat i)) q"
      by (simp add: Cons_nth_drop_Suc)
    with "1.prems"(6) ne have "task \<in> set (drop (Suc (nat i)) q)"
      by (simp add: queue_get_def)
    moreover from "1.prems"(5) have "nat (i + 1) = Suc (nat i)" by simp
    ultimately have in': "task \<in> set (drop (nat (i + 1)) q)" by simp
    from "1.prems"(5) have i': "0 \<le> i + 1" by simp
    from "1.IH"[OF c t False live uniq tv i' in'] c t False show ?thesis
      by (subst get_task_loop.simps) simp
  qed
qed





lemma get_task_loop_id:
  "get_task_loop st q k i = Inr (Some a) \<Longrightarrow> \<exists>t. live_task st a = Some t \<and> task_id t = k"
proof (induction st q k i rule: get_task_loop.induct)
  case (1 st q k i)
  from "1.prems" have c: "0 \<le> i \<and> i \<le> max_index q"
    by (subst (asm) get_task_loop.simps) (auto split: if_splits)
  from "1.prems" c obtain t where t: "live_task st (queue_get q i) = Some t"
    by (subst (asm) get_task_loop.simps) (auto split: option.splits)
  show ?case
  proof (cases "task_id t = k")
    case True
    with "1.prems" c t have "a = queue_get q i"
      by (subst (asm) get_task_loop.simps) simp
    with t True show ?thesis by simp
  next
    case False
    with "1.prems" c t have "get_task_loop st q k (i + 1) = Inr (Some a)"
      by (subst (asm) get_task_loop.simps) simp
    from "1.IH"[OF c t False this] show ?thesis .
  qed
qed















end
